theory Spec2Isabelle
  imports Complex_Main "HOL-Library.Sublist"
begin

section \<open>Configuration (dev\_runner.py, lines 7--13)\<close>

definition PROJECT_SCHEME :: string where
  "PROJECT_SCHEME = ''PowerUserMail''"

definition APP_PATH :: string where
  "APP_PATH = ''build/Build/Products/Debug/PowerUserMail.app/Contents/MacOS/PowerUserMail''"

definition SOURCE_DIR :: string where
  "SOURCE_DIR = ''PowerUserMail''"

section \<open>The outside world: events, exceptions, program state\<close>

text \<open>
  A process handle (a \<open>subprocess.Popen\<close> object) is identified by the number of the
  process it refers to. Every operation on the outside world is recorded in a log, in
  the order in which the script performs it. Durations are in seconds, as in the source.
  Strings are ASCII here, so the leading emoji of each console message is left out.
\<close>

type_synonym pid = nat

datatype event =
    Print string
  | Run "string list"
  | Terminate pid
  | Wait pid real
  | Kill pid
  | Sleep real
  | Exists string
  | Popen "string list" pid
  | PopenFailed "string list"
  | Walk string

datatype exc = KeyboardInterrupt | TimeoutExpired | OSError | SystemExit int

text \<open>
  \<open>current_process\<close> is the module-level global of line 13; \<open>last_mtime\<close> is the local
  variable of \<open>main\<close> (unbound before line 81, so its content in a start state is never
  read). \<open>pending\<close> is the operator's interrupt: \<open>Some k\<close> says that \<open>k\<close> further
  operations complete and that the interrupt falls on the next one, which raises
  \<open>KeyboardInterrupt\<close> instead of being performed (in a scan the interrupt can be caught,
  see \<open>scan\<close>); \<open>None\<close> says that no interrupt arrives.
\<close>

record state =
  current_process :: "pid option"
  last_mtime :: real
  log :: "event list"
  pending :: "nat option"

text \<open>
  A statement of the script maps a state to a result and the state it leaves: \<open>Inl e\<close>
  is the exception \<open>e\<close> propagating, \<open>Inr v\<close> is normal completion with value \<open>v\<close>.
\<close>

type_synonym 'a prog = "state \<Rightarrow> (exc + 'a) \<times> state"

definition ret :: "'a \<Rightarrow> 'a prog" where
  "ret v s = (Inr v, s)"

definition raise :: "exc \<Rightarrow> 'a prog" where
  "raise e s = (Inl e, s)"

definition and_then :: "'a prog \<Rightarrow> ('a \<Rightarrow> 'b prog) \<Rightarrow> 'b prog" where
  "and_then m f s = (case m s of (Inl e, s') \<Rightarrow> (Inl e, s') | (Inr v, s') \<Rightarrow> f v s')"

definition seq :: "'a prog \<Rightarrow> 'b prog \<Rightarrow> 'b prog" where
  "seq m n = and_then m (\<lambda>_. n)"

text \<open>\<open>try: m except ...\<close>: the handler says which exceptions it catches.\<close>

definition try_except :: "'a prog \<Rightarrow> (exc \<Rightarrow> 'a prog option) \<Rightarrow> 'a prog" where
  "try_except m h s =
     (case m s of
        (Inl e, s') \<Rightarrow> (case h e of Some n \<Rightarrow> n s' | None \<Rightarrow> (Inl e, s'))
      | (Inr v, s') \<Rightarrow> (Inr v, s'))"

text \<open>One operation on the outside world, at which a pending interrupt may fire.\<close>

definition tick :: "event \<Rightarrow> unit prog" where
  "tick e s =
     (case pending s of
        None \<Rightarrow> (Inr (), s\<lparr>log := log s @ [e]\<rparr>)
      | Some 0 \<Rightarrow> (Inl KeyboardInterrupt, s\<lparr>pending := None\<rparr>)
      | Some (Suc k) \<Rightarrow> (Inr (), s\<lparr>log := log s @ [e], pending := Some k\<rparr>))"

definition print :: "string \<Rightarrow> unit prog" where
  "print m = tick (Print m)"

definition sleep :: "real \<Rightarrow> unit prog" where
  "sleep d = tick (Sleep d)"

text \<open>
  What the outside world answers during one build-and-run cycle. \<open>scan_tree\<close> is the
  source tree as the scan of the cycle sees it and \<open>build_result\<close> what \<open>xcodebuild\<close>
  returns. \<open>wait_times_out\<close> says that the previous instance outlives the grace period,
  \<open>binary_exists\<close> what \<open>os.path.exists\<close> answers, \<open>launch_fails\<close> that
  \<open>subprocess.Popen\<close> raises \<open>OSError\<close> (the file is there and cannot be executed),
  and \<open>new_pid\<close> names the process of a launch that succeeds. \<open>interrupt_in_try\<close>
  says where an interrupt falls if it falls in the scan of the cycle: inside the \<open>try\<close>
  of lines 71--76, or in the walk around it.
\<close>

record completed_process =
  returncode :: int
  stdout :: string
  stderr :: string

datatype entry = File string "real option" | Dir string "entry list option"

record cycle_env =
  scan_tree :: "entry list option"
  build_result :: completed_process
  wait_times_out :: bool
  binary_exists :: bool
  launch_fails :: bool
  new_pid :: pid
  interrupt_in_try :: bool

section \<open>build (lines 15--37)\<close>

definition xcodebuild_argv :: "string list" where
  "xcodebuild_argv =
     [''xcodebuild'', ''-project'', ''PowerUserMail.xcodeproj'', ''-scheme'', PROJECT_SCHEME,
      ''-configuration'', ''Debug'', ''-destination'', ''generic/platform=macOS'',
      ''-derivedDataPath'', ''build'']"

definition build :: "cycle_env \<Rightarrow> bool prog" where
  "build env =
     seq (print ''Building (verbose)...'')
     (and_then (seq (tick (Run xcodebuild_argv)) (ret (build_result env))) (\<lambda>result.
        if returncode result \<noteq> 0 then
          seq (print ''Build failed:'')
          (seq (if stderr result \<noteq> [] then print (stderr result) else ret ())
          (seq (if stdout result \<noteq> [] then print (stdout result) else ret ())
          (ret False)))
        else seq (print ''Build succeeded.'') (ret True)))"

section \<open>run\_app (lines 39--63)\<close>

definition killall_argv :: "string list" where
  "killall_argv = [''killall'', ''-9'', ''PowerUserMail'']"

text \<open>\<open>Popen.wait(timeout)\<close> raises \<open>TimeoutExpired\<close> when the process outlives the timeout.\<close>

definition wait :: "pid \<Rightarrow> real \<Rightarrow> bool \<Rightarrow> unit prog" where
  "wait p timeout expires =
     seq (tick (Wait p timeout)) (if expires then raise TimeoutExpired else ret ())"

text \<open>
  \<open>subprocess.Popen\<close>: a new process, or \<open>OSError\<close> when the file cannot be executed.
\<close>

definition popen :: "string list \<Rightarrow> bool \<Rightarrow> pid \<Rightarrow> pid prog" where
  "popen argv fails p =
     (if fails then seq (tick (PopenFailed argv)) (raise OSError)
      else seq (tick (Popen argv p)) (ret p))"

definition get_current_process :: "pid option prog" where
  "get_current_process s = (Inr (current_process s), s)"

definition set_current_process :: "pid \<Rightarrow> unit prog" where
  "set_current_process p s = (Inr (), s\<lparr>current_process := Some p\<rparr>)"

definition run_app :: "cycle_env \<Rightarrow> unit prog" where
  "run_app env =
     seq (and_then get_current_process (\<lambda>cp.
            case cp of
              Some p \<Rightarrow>
                seq (print ''Stopping previous instance...'')
                (seq (tick (Terminate p))
                (try_except (wait p 1 (wait_times_out env))
                   (\<lambda>e. if e = TimeoutExpired
                        then Some (seq (print ''Force killing...'') (tick (Kill p)))
                        else None)))
            | None \<Rightarrow> ret ()))
     (seq (tick (Run killall_argv))
     (seq (sleep (1/2))
     (seq (print ''Running app (logs will appear below)...'')
     (seq (print (replicate 40 (CHR ''-'')))
     (and_then (seq (tick (Exists APP_PATH)) (ret (binary_exists env))) (\<lambda>found.
        if found then
          and_then (popen [APP_PATH] (launch_fails env) (new_pid env)) set_current_process
        else print (''App binary not found at '' @ APP_PATH)))))))"

section \<open>get\_max\_mtime (lines 65--77)\<close>

text \<open>\<open>str.endswith\<close>, and the test of line 69 on a file name.\<close>

definition endswith :: "string \<Rightarrow> string \<Rightarrow> bool" where
  "endswith s suf = (length suf \<le> length s \<and> drop (length s - length suf) s = suf)"

definition watched :: "string \<Rightarrow> bool" where
  "watched f = (endswith f ''.swift'' \<or> endswith f ''.entitlements'' \<or> endswith f ''.plist'')"

text \<open>\<open>os.path.join\<close> of two components.\<close>

definition path_join :: "string \<Rightarrow> string \<Rightarrow> string" where
  "path_join a b =
     (if b \<noteq> [] \<and> hd b = CHR ''/'' then b
      else if a = [] \<or> last a = CHR ''/'' then a @ b
      else a @ ''/'' @ b)"

text \<open>
  The directory tree as the scan sees it. \<open>File n t\<close> is a non-directory entry named \<open>n\<close>
  whose \<open>os.path.getmtime\<close> returns \<open>t\<close>, or raises when \<open>t\<close> is \<open>None\<close> (the bare
  \<open>except\<close> of line 75 catches whatever is raised there, an interrupt included).
  \<open>Dir n l\<close> is a directory named \<open>n\<close> with listing \<open>l\<close>; \<open>None\<close> is a directory that
  cannot be listed or is not followed. \<open>os.walk\<close> (top-down, errors ignored) yields
  for each listed directory its path, its directory names and its files, the directory
  itself before its subdirectories. A timestamp is a float that counts the seconds from
  the epoch, negative for a time before 1970; timestamps are only compared, so they are
  reals here.
\<close>

definition dir_names :: "entry list \<Rightarrow> string list" where
  "dir_names es = concat (map (\<lambda>e. case e of Dir n _ \<Rightarrow> [n] | File _ _ \<Rightarrow> []) es)"

definition file_entries :: "entry list \<Rightarrow> (string \<times> real option) list" where
  "file_entries es = concat (map (\<lambda>e. case e of File n t \<Rightarrow> [(n, t)] | Dir _ _ \<Rightarrow> []) es)"

function walk :: "string \<Rightarrow> entry list option \<Rightarrow>
    (string \<times> string list \<times> (string \<times> real option) list) list" where
  "walk dirpath None = []"
| "walk dirpath (Some es) =
     (dirpath, dir_names es, file_entries es) #
     concat (map (\<lambda>e. case e of Dir n l \<Rightarrow> walk (path_join dirpath n) l | File _ _ \<Rightarrow> []) es)"
  by pat_completeness auto
termination
proof (relation "measure (\<lambda>(dirpath, t). size_option (size_list size) t)")
  show "wf (measure (\<lambda>(dirpath, t). size_option (size_list size) t))"
    by simp
next
  fix dirpath :: string and es :: "entry list" and e :: entry and n :: string
    and l :: "entry list option"
  assume "e \<in> set es" and "e = Dir n l"
  then have "size (Dir n l) \<le> size_list size es"
    using size_list_estimation'[of "Dir n l" es "size (Dir n l)" size] by simp
  then show "((path_join dirpath n, l), (dirpath, Some es))
      \<in> measure (\<lambda>(dirpath, t). size_option (size_list size) t)"
    by simp
qed

text \<open>The body of the inner loop, lines 69--76, for one file of a yielded directory.\<close>

definition visit_file :: "string \<times> real option \<Rightarrow> real \<Rightarrow> real" where
  "visit_file f max_mtime =
     (case f of (name, st) \<Rightarrow>
        if watched name then
          (case st of
             Some mtime \<Rightarrow> if mtime > max_mtime then mtime else max_mtime
           | None \<Rightarrow> max_mtime)
        else max_mtime)"

definition get_max_mtime :: "entry list option \<Rightarrow> real" where
  "get_max_mtime tree =
     fold (\<lambda>(dirpath, dirs, files) max_mtime. fold visit_file files max_mtime)
       (walk SOURCE_DIR tree) 0"

text \<open>
  The scan as a statement of the script. For the interrupt it is one operation. An
  interrupt that falls in it is raised either in the walk, and then propagates, or inside
  the \<open>try\<close> of lines 71--76, which the scan enters for the files with a watched name
  only. There the bare \<open>except\<close> of line 75 catches it: the scan goes on and returns its
  result, and no interrupt is pending any more. \<open>scan_tree\<close> then shows the file at
  which the interrupt fell as the scan saw it, without a timestamp when line 74 was not
  reached.
\<close>

definition enters_try :: "entry list option \<Rightarrow> bool" where
  "enters_try tree =
     list_ex (\<lambda>(dirpath, dirs, files). list_ex (\<lambda>(name, st). watched name) files)
       (walk SOURCE_DIR tree)"

definition scan :: "cycle_env \<Rightarrow> real prog" where
  "scan env s =
     (if pending s = Some 0 \<and> interrupt_in_try env \<and> enters_try (scan_tree env)
      then (Inr (get_max_mtime (scan_tree env)),
            s\<lparr>log := log s @ [Walk SOURCE_DIR], pending := None\<rparr>)
      else seq (tick (Walk SOURCE_DIR)) (ret (get_max_mtime (scan_tree env))) s)"

section \<open>main (lines 79--103)\<close>

definition get_last_mtime :: "real prog" where
  "get_last_mtime s = (Inr (last_mtime s), s)"

definition set_last_mtime :: "real \<Rightarrow> unit prog" where
  "set_last_mtime v s = (Inr (), s\<lparr>last_mtime := v\<rparr>)"

text \<open>\<open>if build(): run_app()\<close>, lines 84--85 and 97--98.\<close>

definition build_then_run :: "cycle_env \<Rightarrow> unit prog" where
  "build_then_run env = and_then (build env) (\<lambda>ok. if ok then run_app env else ret ())"

text \<open>One iteration of \<open>while True\<close>, lines 89--98.\<close>

definition watch_cycle :: "cycle_env \<Rightarrow> unit prog" where
  "watch_cycle env =
     seq (sleep 1)
     (and_then (scan env) (\<lambda>current_mtime.
      and_then get_last_mtime (\<lambda>last.
        if current_mtime > last then
          seq (print (CHR 0x0A # ''Change detected. Rebuilding...''))
          (seq (set_last_mtime current_mtime)
          (seq (sleep (1/2))
          (build_then_run env)))
        else ret ())))"

text \<open>
  The loop never ends by itself. It is run here on the answers of the outside world for
  finitely many iterations; \<open>Inr ()\<close> then says that the script is still in the loop.
\<close>

primrec loop :: "cycle_env list \<Rightarrow> unit prog" where
  "loop [] = ret ()"
| "loop (c # cs) = seq (watch_cycle c) (loop cs)"

text \<open>The handler of lines 99--103; \<open>sys.exit(0)\<close> raises \<open>SystemExit\<close> with code 0.\<close>

definition on_interrupt :: "unit prog" where
  "on_interrupt =
     seq (print (CHR 0x0A # ''Exiting...''))
     (seq (and_then get_current_process (\<lambda>cp.
             case cp of Some p \<Rightarrow> tick (Terminate p) | None \<Rightarrow> ret ()))
     (raise (SystemExit 0)))"

definition main :: "cycle_env \<Rightarrow> cycle_env list \<Rightarrow> unit prog" where
  "main init cycles =
     seq (print (''Watching for changes in '' @ SOURCE_DIR @ ''...''))
     (seq (and_then (scan init) set_last_mtime)
     (seq (build_then_run init)
     (try_except (loop cycles)
        (\<lambda>e. if e = KeyboardInterrupt then Some on_interrupt else None))))"

section \<open>Notions used to state the properties\<close>

text \<open>The state in which the script starts: no handle, nothing logged.\<close>

definition start :: "nat option \<Rightarrow> state" where
  "start k = \<lparr>current_process = None, last_mtime = 0, log = [], pending = k\<rparr>"

text \<open>The events that a statement added to the log.\<close>

definition new_events :: "state \<Rightarrow> state \<Rightarrow> event list" where
  "new_events s s' = drop (length (log s)) (log s')"

text \<open>
  The files that the walk reaches, each with the outcome of reading its timestamp, and
  the timestamps that could be read among the files with a watched name.
\<close>

definition files_at :: "string \<Rightarrow> entry list option \<Rightarrow> (string \<times> real option) list" where
  "files_at d tree = concat (map (\<lambda>(dirpath, dirs, files). files) (walk d tree))"

definition all_files :: "entry list option \<Rightarrow> (string \<times> real option) list" where
  "all_files tree = files_at SOURCE_DIR tree"

definition readable_watched :: "(string \<times> real option) list \<Rightarrow> real list" where
  "readable_watched fs =
     concat (map (\<lambda>(name, st).
       case st of Some t \<Rightarrow> if watched name then [t] else [] | None \<Rightarrow> []) fs)"

definition watched_mtimes :: "entry list option \<Rightarrow> real list" where
  "watched_mtimes tree = readable_watched (all_files tree)"

definition below :: "string \<Rightarrow> entry \<Rightarrow> (string \<times> real option) list" where
  "below d e = (case e of Dir n l \<Rightarrow> files_at (path_join d n) l | File _ _ \<Rightarrow> [])"

text \<open>
  The tree with every file of a non-watched name erased. Two trees that agree after the
  erasure differ only in files with non-watched names.
\<close>

fun drop_unwatched :: "entry \<Rightarrow> entry list" where
  "drop_unwatched (File n t) = (if watched n then [File n t] else [])"
| "drop_unwatched (Dir n l) = [Dir n (map_option (\<lambda>es. concat (map drop_unwatched es)) l)]"

definition watched_only :: "entry list option \<Rightarrow> entry list option" where
  "watched_only tree = map_option (\<lambda>es. concat (map drop_unwatched es)) tree"

text \<open>Concrete directory trees.\<close>

definition tree1 :: "entry list option" where
  "tree1 = Some [File ''A.swift'' (Some 5), File ''notes.txt'' (Some 9), File ''B.plist'' None,
     Dir ''Sub'' (Some [File ''C.entitlements'' (Some 7), File ''swift'' (Some 20)]),
     Dir ''Locked'' None]"

definition tree2 :: "entry list option" where
  "tree2 = Some [File ''notes.txt'' (Some 9), File ''B.plist'' None, Dir ''Locked'' None]"

text \<open>
  \<open>tree1\<close> after a watched file was touched, and after a file with a non-watched name
  was touched and another such file was created.
\<close>

definition tree1_touched :: "entry list option" where
  "tree1_touched = Some [File ''A.swift'' (Some 10), File ''notes.txt'' (Some 9),
     File ''B.plist'' None,
     Dir ''Sub'' (Some [File ''C.entitlements'' (Some 7), File ''swift'' (Some 20)]),
     Dir ''Locked'' None]"

definition tree1_notes :: "entry list option" where
  "tree1_notes = Some [File ''A.swift'' (Some 5), File ''notes.txt'' (Some 100),
     File ''B.plist'' None,
     Dir ''Sub'' (Some [File ''C.entitlements'' (Some 7), File ''swift'' (Some 20),
                        File ''README.md'' (Some 101)]),
     Dir ''Locked'' None]"

text \<open>
  Properties of a statement that hold however it ends and wherever an interrupt falls:
  \<open>keeps R m\<close> says that \<open>m\<close> relates every state to the state it leaves.
\<close>

definition keeps :: "(state \<Rightarrow> state \<Rightarrow> bool) \<Rightarrow> 'a prog \<Rightarrow> bool" where
  "keeps R m = (\<forall>s. R s (snd (m s)))"

definition same_handle :: "state \<Rightarrow> state \<Rightarrow> bool" where
  "same_handle s s' = (current_process s' = current_process s)"

definition same_baseline :: "state \<Rightarrow> state \<Rightarrow> bool" where
  "same_baseline s s' = (last_mtime s' = last_mtime s)"

definition baseline_grows :: "state \<Rightarrow> state \<Rightarrow> bool" where
  "baseline_grows s s' = (last_mtime s \<le> last_mtime s')"

definition emits :: "(event \<Rightarrow> bool) \<Rightarrow> state \<Rightarrow> state \<Rightarrow> bool" where
  "emits P s s' = (\<exists>es. log s' = log s @ es \<and> list_all P es)"

text \<open>The signals of the script: terminate, kill, and the kill by name.\<close>

definition is_signal :: "event \<Rightarrow> bool" where
  "is_signal e =
     (case e of Terminate _ \<Rightarrow> True | Kill _ \<Rightarrow> True | Run argv \<Rightarrow> argv = killall_argv
      | _ \<Rightarrow> False)"

definition is_launch :: "event \<Rightarrow> bool" where
  "is_launch e = (case e of Popen _ _ \<Rightarrow> True | _ \<Rightarrow> False)"

text \<open>
  A statement that ends with an exception only when the interrupt fired in it, and then
  leaves no interrupt pending, or when a launch failed.
\<close>

definition clean_interrupt :: "(exc + 'a) \<times> state \<Rightarrow> bool" where
  "clean_interrupt rs =
     (case fst rs of
        Inl e \<Rightarrow> (e = KeyboardInterrupt \<and> pending (snd rs) = None) \<or> e = OSError
      | Inr _ \<Rightarrow> True)"

definition interrupt_only :: "'a prog \<Rightarrow> bool" where
  "interrupt_only m = (\<forall>s. clean_interrupt (m s))"

text \<open>No interrupt arrives before \<open>n\<close> operations have completed.\<close>

definition not_before :: "nat \<Rightarrow> state \<Rightarrow> bool" where
  "not_before n s = (case pending s of None \<Rightarrow> True | Some k \<Rightarrow> n \<le> k)"

text \<open>Concrete answers of the outside world, and a state with a tracked process.\<close>

definition env_ok :: cycle_env where
  "env_ok = \<lparr>scan_tree = tree1,
     build_result = \<lparr>returncode = 0, stdout = ''ok'', stderr = []\<rparr>,
     wait_times_out = True, binary_exists = True, launch_fails = False, new_pid = 8,
     interrupt_in_try = False\<rparr>"

definition env_fail :: cycle_env where
  "env_fail = \<lparr>scan_tree = tree1,
     build_result = \<lparr>returncode = 65, stdout = [], stderr = ''error''\<rparr>,
     wait_times_out = False, binary_exists = True, launch_fails = False, new_pid = 9,
     interrupt_in_try = False\<rparr>"

definition env_missing :: cycle_env where
  "env_missing = \<lparr>scan_tree = tree1,
     build_result = \<lparr>returncode = 0, stdout = [], stderr = []\<rparr>,
     wait_times_out = False, binary_exists = False, launch_fails = False, new_pid = 9,
     interrupt_in_try = False\<rparr>"

text \<open>The binary is there and cannot be executed.\<close>

definition env_unlaunchable :: cycle_env where
  "env_unlaunchable = \<lparr>scan_tree = tree1,
     build_result = \<lparr>returncode = 0, stdout = [], stderr = []\<rparr>,
     wait_times_out = True, binary_exists = True, launch_fails = True, new_pid = 9,
     interrupt_in_try = False\<rparr>"

text \<open>A change is there to be seen: \<open>A.swift\<close> was touched.\<close>

definition env_touched :: cycle_env where
  "env_touched = \<lparr>scan_tree = tree1_touched,
     build_result = \<lparr>returncode = 0, stdout = [], stderr = []\<rparr>,
     wait_times_out = False, binary_exists = True, launch_fails = False, new_pid = 9,
     interrupt_in_try = False\<rparr>"

text \<open>
  Nothing has changed, and an interrupt that falls in the scan falls inside the \<open>try\<close>
  of lines 71--76.
\<close>

definition env_in_try :: cycle_env where
  "env_in_try = \<lparr>scan_tree = tree1,
     build_result = \<lparr>returncode = 0, stdout = [], stderr = []\<rparr>,
     wait_times_out = False, binary_exists = True, launch_fails = False, new_pid = 9,
     interrupt_in_try = True\<rparr>"

definition tracking :: "pid \<Rightarrow> state" where
  "tracking p = \<lparr>current_process = Some p, last_mtime = 7, log = [], pending = None\<rparr>"

text \<open>A state whose baseline is older than the newest watched file of \<open>tree1\<close>.\<close>

definition behind :: "nat option \<Rightarrow> state" where
  "behind k = \<lparr>current_process = Some 7, last_mtime = 5, log = [], pending = k\<rparr>"

text \<open>The operations on the outside world that only \<open>run_app\<close> performs.\<close>

definition from_run_app :: "event \<Rightarrow> bool" where
  "from_run_app e =
     (case e of Terminate _ \<Rightarrow> True | Wait _ _ \<Rightarrow> True | Kill _ \<Rightarrow> True | Popen _ _ \<Rightarrow> True
      | PopenFailed _ \<Rightarrow> True | Exists _ \<Rightarrow> True | Run argv \<Rightarrow> argv = killall_argv
      | _ \<Rightarrow> False)"

section \<open>The scan: helper lemmas\<close>

lemma endswith_suffix: "endswith s suf = suffix suf s"
proof
  assume "endswith s suf"
  then have "s = take (length s - length suf) s @ suf"
    by (metis append_take_drop_id endswith_def)
  then show "suffix suf s" by (metis suffixI)
next
  assume "suffix suf s"
  then obtain zs where "s = zs @ suf" by (auto simp: suffix_def)
  then show "endswith s suf" by (simp add: endswith_def)
qed

lemma fold_visit_file:
  "fold visit_file fs acc = Max (set (acc # readable_watched fs))"
proof (induction fs arbitrary: acc)
  case Nil
  show ?case by (simp add: readable_watched_def)
next
  case (Cons f fs)
  obtain n st where f: "f = (n, st)" by (cases f)
  have rw: "readable_watched ((n, st) # fs) =
      (case st of Some t \<Rightarrow> if watched n then [t] else [] | None \<Rightarrow> []) @ readable_watched fs"
    by (simp add: readable_watched_def)
  show ?case
  proof (cases "watched n \<and> st \<noteq> None")
    case False
    then have "visit_file (n, st) acc = acc"
      and "readable_watched ((n, st) # fs) = readable_watched fs"
      unfolding rw by (auto simp: visit_file_def split: option.splits)
    then show ?thesis using Cons.IH[of acc] by (simp add: f)
  next
    case True
    then obtain t where t: "st = Some t" and w: "watched n" by auto
    have v: "visit_file (n, st) acc = max acc t"
      by (auto simp: visit_file_def t w max_def)
    have r: "readable_watched ((n, st) # fs) = t # readable_watched fs"
      unfolding rw by (simp add: t w)
    have "Max (set (max acc t # readable_watched fs)) = Max (set (acc # t # readable_watched fs))"
      by (cases "readable_watched fs = []") (simp_all add: max.assoc)
    then show ?thesis using Cons.IH[of "max acc t"] by (simp only: f fold_Cons comp_apply v r)
  qed
qed

lemma fold_concat: "fold f (concat xss) a = fold (\<lambda>xs. fold f xs) xss a"
  by (induction xss arbitrary: a) simp_all

lemma get_max_mtime_fold: "get_max_mtime tree = fold visit_file (all_files tree) 0"
  by (simp add: get_max_mtime_def all_files_def files_at_def fold_concat fold_map comp_def
      case_prod_unfold)

lemma get_max_mtime_Max: "get_max_mtime tree = Max (set (0 # watched_mtimes tree))"
  by (simp add: get_max_mtime_fold fold_visit_file watched_mtimes_def)


lemma readable_watched_append [simp]:
  "readable_watched (xs @ ys) = readable_watched xs @ readable_watched ys"
  by (simp add: readable_watched_def)

lemma readable_watched_Nil [simp]: "readable_watched [] = []"
  by (simp add: readable_watched_def)

lemma files_at_None [simp]: "files_at d None = []"
  by (simp add: files_at_def)

lemma files_at_Some:
  "files_at d (Some es) = file_entries es @ concat (map (below d) es)"
proof -
  have "concat (map (\<lambda>(dirpath, dirs, files). files)
          (concat (map (\<lambda>e. case e of Dir n l \<Rightarrow> walk (path_join d n) l | File _ _ \<Rightarrow> []) xs)))
        = concat (map (below d) xs)" for xs
    by (induction xs) (simp_all add: below_def files_at_def split: entry.split)
  then show ?thesis by (simp add: files_at_def)
qed

lemma file_entries_simps [simp]:
  "file_entries [] = []"
  "file_entries (File n t # es) = (n, t) # file_entries es"
  "file_entries (Dir n l # es) = file_entries es"
  "file_entries (xs @ ys) = file_entries xs @ file_entries ys"
  by (simp_all add: file_entries_def)

lemma files_at_watched_only:
  "readable_watched (files_at d (watched_only tree)) = readable_watched (files_at d tree)"
proof (induction d tree rule: walk.induct)
  case (1 d)
  show ?case by (simp add: watched_only_def)
next
  case (2 d es)
  have IH: "readable_watched (files_at (path_join d n) (watched_only l)) =
            readable_watched (files_at (path_join d n) l)" if "Dir n l \<in> set es" for n l
    using "2.IH"[OF that refl] .
  have "set xs \<subseteq> set es \<Longrightarrow>
        readable_watched (file_entries (concat (map drop_unwatched xs))) =
          readable_watched (file_entries xs) \<and>
        readable_watched (concat (map (below d) (concat (map drop_unwatched xs)))) =
          readable_watched (concat (map (below d) xs))" for xs
  proof (induction xs)
    case Nil
    show ?case by simp
  next
    case (Cons x xs)
    then have xs: "set xs \<subseteq> set es" and x: "x \<in> set es" by auto
    show ?case
    proof (cases x)
      case (File n t)
      then show ?thesis using Cons.IH[OF xs]
        by (simp add: below_def readable_watched_def split: option.split)
    next
      case (Dir n l)
      with x have "Dir n l \<in> set es" by simp
      from IH[OF this] show ?thesis using Cons.IH[OF xs]
        by (simp add: Dir below_def watched_only_def)
    qed
  qed
  from this[of es] show ?case
    by (simp add: watched_only_def files_at_Some)
qed

lemma watched_mtimes_watched_only: "watched_mtimes (watched_only tree) = watched_mtimes tree"
  using files_at_watched_only[of SOURCE_DIR tree]
  by (simp add: watched_mtimes_def all_files_def)

lemma get_max_mtime_watched_only:
  "watched_only t1 = watched_only t2 \<Longrightarrow> get_max_mtime t1 = get_max_mtime t2"
  by (metis get_max_mtime_Max watched_mtimes_watched_only)

lemma watched_file_bound:
  assumes "(n, Some t) \<in> set (all_files tree)" and "watched n"
  shows "t \<le> get_max_mtime tree"
proof -
  from assms have "t \<in> set (watched_mtimes tree)"
    by (force simp: watched_mtimes_def readable_watched_def)
  then show ?thesis by (simp add: get_max_mtime_Max)
qed


lemmas scan_eval = get_max_mtime_def watched_mtimes_def all_files_def files_at_def
  readable_watched_def
  dir_names_def file_entries_def visit_file_def watched_def endswith_def SOURCE_DIR_def
  path_join_def

section \<open>C3: what the scan returns\<close>

text \<open>
  Claim C3, as amended. For every directory tree the scan returns the larger of 0 and the
  maximum over exactly the timestamps that could be read among the files the walk reaches
  whose names end in \<open>.swift\<close>, \<open>.entitlements\<close> or \<open>.plist\<close>. A file whose
  timestamp cannot be read contributes nothing and does not stop the scan. The result is 0
  when there is no such timestamp, in particular when the source directory is unreadable
  or empty, and it is the maximum timestamp itself as soon as one of them is at or after
  the epoch.
\<close>

theorem get_max_mtime_max_with_zero:
  "get_max_mtime tree = Max (set (0 # watched_mtimes tree))
   \<and> (t \<in> set (watched_mtimes tree) \<longleftrightarrow> (\<exists>n. (n, Some t) \<in> set (all_files tree) \<and> watched n))
   \<and> (watched f \<longleftrightarrow> suffix ''.swift'' f \<or> suffix ''.entitlements'' f \<or> suffix ''.plist'' f)
   \<and> (watched_mtimes tree = [] \<longrightarrow> get_max_mtime tree = 0)
   \<and> get_max_mtime None = 0 \<and> get_max_mtime (Some []) = 0
   \<and> ((\<exists>u\<in>set (watched_mtimes tree). 0 \<le> u) \<longrightarrow>
        get_max_mtime tree = Max (set (watched_mtimes tree)))"
proof (intro conjI impI)
  show m: "get_max_mtime tree = Max (set (0 # watched_mtimes tree))"
    by (rule get_max_mtime_Max)
  show "t \<in> set (watched_mtimes tree) \<longleftrightarrow> (\<exists>n. (n, Some t) \<in> set (all_files tree) \<and> watched n)"
    by (force simp: watched_mtimes_def readable_watched_def split: option.splits if_splits)
  show "watched f \<longleftrightarrow> suffix ''.swift'' f \<or> suffix ''.entitlements'' f \<or> suffix ''.plist'' f"
    by (simp add: watched_def endswith_suffix)
  show "get_max_mtime tree = 0" if "watched_mtimes tree = []"
    using that by (simp add: m)
  show "get_max_mtime None = 0" by (simp add: get_max_mtime_def)
  show "get_max_mtime (Some []) = 0"
    by (simp add: get_max_mtime_def dir_names_def file_entries_def)
  show "get_max_mtime tree = Max (set (watched_mtimes tree))"
    if "\<exists>u\<in>set (watched_mtimes tree). 0 \<le> u"
  proof -
    from that obtain u where u: "u \<in> set (watched_mtimes tree)" "0 \<le> u" by blast
    then have ne: "set (watched_mtimes tree) \<noteq> {}" by auto
    have "u \<le> Max (set (watched_mtimes tree))" using u by simp
    with u have "0 \<le> Max (set (watched_mtimes tree))" by linarith
    then show ?thesis using ne by (simp add: m max_def)
  qed
qed

text \<open>
  On \<open>tree1\<close> the watched files with a readable timestamp carry 5 and 7 (the one in
  a subdirectory); \<open>tree2\<close> has a watched file, unreadable, and nothing else watched.
\<close>

theorem get_max_mtime_max_with_zero_witness:
  "(\<exists>u\<in>set (watched_mtimes tree1). 0 \<le> u) \<and> get_max_mtime tree1 = 7
   \<and> watched_mtimes tree2 = [] \<and> get_max_mtime tree2 = 0"
proof -
  have w1: "watched_mtimes tree1 = [5, 7]"
    by (simp add: tree1_def scan_eval)
  have w2: "watched_mtimes tree2 = []"
    by (simp add: tree2_def scan_eval)
  have h: "\<exists>u\<in>set (watched_mtimes tree1). 0 \<le> u" by (simp add: w1)
  from get_max_mtime_max_with_zero[of tree1] h
  have "get_max_mtime tree1 = Max (set (watched_mtimes tree1))" by blast
  moreover from get_max_mtime_max_with_zero[of tree2] w2
  have "get_max_mtime tree2 = 0" by blast
  ultimately show ?thesis using h w1 w2 by simp
qed

text \<open>
  The scan is not the maximum timestamp for every tree: a timestamp is a float counting
  seconds from the epoch, negative before 1970, and the running maximum starts at 0
  (line 66). With one watched file dated one second before the epoch the scan returns 0.
\<close>

theorem get_max_mtime_pre_epoch_counterexample:
  "watched ''A.swift''
   \<and> get_max_mtime (Some [File ''A.swift'' (Some (- 1))]) = 0
   \<and> get_max_mtime (Some [File ''A.swift'' (Some (- 1))]) \<noteq> Max {- 1}"
  by (simp add: scan_eval)

section \<open>Statements: helper lemmas\<close>

lemma tick_None: "pending s = None \<Longrightarrow> tick e s = (Inr (), s\<lparr>log := log s @ [e]\<rparr>)"
  by (simp add: tick_def)

lemmas prog_defs = seq_def and_then_def try_except_def ret_def raise_def print_def sleep_def
  wait_def get_current_process_def set_current_process_def get_last_mtime_def set_last_mtime_def
  scan_def new_events_def

lemma keeps_ret: "reflp R \<Longrightarrow> keeps R (ret v)"
  by (simp add: keeps_def ret_def reflp_def)

lemma keeps_raise: "reflp R \<Longrightarrow> keeps R (raise e)"
  by (simp add: keeps_def raise_def reflp_def)

lemma keeps_and_then:
  assumes "transp R" and "keeps R m" and "\<And>v. keeps R (f v)"
  shows "keeps R (and_then m f)"
proof (unfold keeps_def, intro allI)
  fix s
  obtain r s1 where ms: "m s = (r, s1)" by (cases "m s")
  from assms(2) ms have r1: "R s s1" by (auto simp: keeps_def dest: spec[of _ s])
  show "R s (snd (and_then m f s))"
  proof (cases r)
    case (Inl e)
    with ms r1 show ?thesis by (simp add: and_then_def)
  next
    case (Inr v)
    from assms(3)[of v] have "R s1 (snd (f v s1))" by (simp add: keeps_def)
    with r1 assms(1) have "R s (snd (f v s1))" by (blast dest: transpD)
    with ms Inr show ?thesis by (simp add: and_then_def)
  qed
qed

lemma keeps_seq:
  "transp R \<Longrightarrow> keeps R m \<Longrightarrow> keeps R n \<Longrightarrow> keeps R (seq m n)"
  by (simp add: seq_def keeps_and_then)

lemma keeps_try_except:
  assumes "transp R" and "keeps R m" and "\<And>e n. h e = Some n \<Longrightarrow> keeps R n"
  shows "keeps R (try_except m h)"
proof (unfold keeps_def, intro allI)
  fix s
  obtain r s1 where ms: "m s = (r, s1)" by (cases "m s")
  from assms(2) ms have r1: "R s s1" by (auto simp: keeps_def dest: spec[of _ s])
  show "R s (snd (try_except m h s))"
  proof (cases r)
    case (Inr v)
    with ms r1 show ?thesis by (simp add: try_except_def)
  next
    case (Inl e)
    show ?thesis
    proof (cases "h e")
      case None
      with ms r1 Inl show ?thesis by (simp add: try_except_def)
    next
      case (Some n)
      from assms(3)[OF Some] have "R s1 (snd (n s1))" by (simp add: keeps_def)
      with r1 assms(1) have "R s (snd (n s1))" by (blast dest: transpD)
      with ms Inl Some show ?thesis by (simp add: try_except_def)
    qed
  qed
qed

lemma keeps_if: "(c \<Longrightarrow> keeps R a) \<Longrightarrow> (\<not> c \<Longrightarrow> keeps R b) \<Longrightarrow> keeps R (if c then a else b)"
  by simp

lemma keeps_case_option:
  "keeps R a \<Longrightarrow> (\<And>p. keeps R (f p)) \<Longrightarrow> keeps R (case x of None \<Rightarrow> a | Some p \<Rightarrow> f p)"
  by (cases x) simp_all

lemma keeps_get_current_process: "reflp R \<Longrightarrow> keeps R get_current_process"
  by (simp add: keeps_def get_current_process_def reflp_def)

lemma keeps_get_last_mtime: "reflp R \<Longrightarrow> keeps R get_last_mtime"
  by (simp add: keeps_def get_last_mtime_def reflp_def)

lemmas keeps_intros =
  keeps_seq keeps_and_then keeps_try_except keeps_ret keeps_raise keeps_if keeps_case_option
  keeps_get_current_process keeps_get_last_mtime

lemma same_handle_order: "reflp same_handle" "transp same_handle"
  by (auto simp: reflp_def transp_def same_handle_def)

lemma same_baseline_order: "reflp same_baseline" "transp same_baseline"
  by (auto simp: reflp_def transp_def same_baseline_def)

lemma baseline_grows_order: "reflp baseline_grows" "transp baseline_grows"
  by (auto simp: reflp_def transp_def baseline_grows_def)

lemma emits_order: "reflp (emits P)" "transp (emits P)"
  by (auto simp: reflp_def transp_def emits_def)

lemma tick_same_handle: "keeps same_handle (tick e)"
  by (simp add: keeps_def same_handle_def tick_def split: option.split nat.split)

lemma tick_same_baseline: "keeps same_baseline (tick e)"
  by (simp add: keeps_def same_baseline_def tick_def split: option.split nat.split)

lemma tick_emits: "P e \<Longrightarrow> keeps (emits P) (tick e)"
  by (simp add: keeps_def emits_def tick_def split: option.split nat.split)

lemma set_current_process_same_baseline: "keeps same_baseline (set_current_process p)"
  by (simp add: keeps_def same_baseline_def set_current_process_def)

lemma build_same_handle: "keeps same_handle (build env)"
  unfolding build_def print_def
  by (intro keeps_intros same_handle_order tick_same_handle)

lemma build_same_baseline: "keeps same_baseline (build env)"
  unfolding build_def print_def
  by (intro keeps_intros same_baseline_order tick_same_baseline)

lemma build_emits: "keeps (emits (\<lambda>e. \<not> is_signal e \<and> \<not> is_launch e)) (build env)"
  unfolding build_def print_def
  by (intro keeps_intros emits_order tick_emits)
     (simp_all add: is_signal_def is_launch_def xcodebuild_argv_def killall_argv_def)

lemma and_then_seq_ret: "and_then (seq m (ret v)) f = seq m (f v)"
  by (rule ext) (simp add: and_then_def seq_def ret_def split: prod.split sum.split)

lemma run_app_same_baseline: "keeps same_baseline (run_app env)"
  unfolding run_app_def print_def sleep_def wait_def popen_def
  by (intro keeps_intros same_baseline_order tick_same_baseline
        set_current_process_same_baseline)
     (auto intro!: keeps_intros same_baseline_order tick_same_baseline split: if_splits)

lemma run_app_absent_same_handle:
  assumes "\<not> binary_exists env"
  shows "keeps same_handle (run_app env)"
  unfolding run_app_def print_def sleep_def wait_def and_then_seq_ret
  using assms
  by (intro keeps_intros same_handle_order tick_same_handle)
     (auto intro!: keeps_intros same_handle_order tick_same_handle split: if_splits)


lemma run_app_no_handle:
  "current_process s = None \<Longrightarrow> pending s = None \<Longrightarrow>
   run_app env s =
     (if binary_exists env \<and> launch_fails env then Inl OSError else Inr (),
      s\<lparr>current_process :=
          (if binary_exists env \<and> \<not> launch_fails env then Some (new_pid env) else None),
        log := log s @
          [Run killall_argv, Sleep (1/2), Print ''Running app (logs will appear below)...'',
           Print (replicate 40 (CHR ''-'')), Exists APP_PATH] @
          (if binary_exists env
           then (if launch_fails env then [PopenFailed [APP_PATH]]
                 else [Popen [APP_PATH] (new_pid env)])
           else [Print (''App binary not found at '' @ APP_PATH)])\<rparr>)"
  by (simp add: run_app_def popen_def prog_defs tick_None)

lemma run_app_handle:
  "current_process s = Some p \<Longrightarrow> pending s = None \<Longrightarrow>
   run_app env s =
     (if binary_exists env \<and> launch_fails env then Inl OSError else Inr (),
      s\<lparr>current_process :=
          (if binary_exists env \<and> \<not> launch_fails env then Some (new_pid env) else Some p),
        log := log s @
          [Print ''Stopping previous instance...'', Terminate p, Wait p 1] @
          (if wait_times_out env then [Print ''Force killing...'', Kill p] else []) @
          [Run killall_argv, Sleep (1/2), Print ''Running app (logs will appear below)...'',
           Print (replicate 40 (CHR ''-'')), Exists APP_PATH] @
          (if binary_exists env
           then (if launch_fails env then [PopenFailed [APP_PATH]]
                 else [Popen [APP_PATH] (new_pid env)])
           else [Print (''App binary not found at '' @ APP_PATH)])\<rparr>)"
  by (simp add: run_app_def popen_def prog_defs tick_None)

lemma interrupt_only_tick: "interrupt_only (tick e)"
  by (simp add: interrupt_only_def clean_interrupt_def tick_def split: option.split nat.split)

lemma interrupt_only_print_sleep: "interrupt_only (print m)" "interrupt_only (sleep d)"
  by (simp_all add: print_def sleep_def interrupt_only_tick)

lemma interrupt_only_ret: "interrupt_only (ret v)"
  by (simp add: interrupt_only_def clean_interrupt_def ret_def)

lemma interrupt_only_and_then:
  assumes "interrupt_only m" and "\<And>v. interrupt_only (f v)"
  shows "interrupt_only (and_then m f)"
proof (unfold interrupt_only_def, intro allI)
  fix s
  obtain r s1 where ms: "m s = (r, s1)" by (cases "m s")
  from assms(1) have c: "clean_interrupt (m s)" by (simp add: interrupt_only_def)
  show "clean_interrupt (and_then m f s)"
  proof (cases r)
    case (Inl e)
    with ms c show ?thesis by (simp add: and_then_def clean_interrupt_def)
  next
    case (Inr v)
    from assms(2)[of v] have "clean_interrupt (f v s1)" by (simp add: interrupt_only_def)
    with ms Inr show ?thesis by (simp add: and_then_def)
  qed
qed

lemma interrupt_only_seq: "interrupt_only m \<Longrightarrow> interrupt_only n \<Longrightarrow> interrupt_only (seq m n)"
  by (simp add: seq_def interrupt_only_and_then)

lemma interrupt_only_if:
  "(c \<Longrightarrow> interrupt_only a) \<Longrightarrow> (\<not> c \<Longrightarrow> interrupt_only b) \<Longrightarrow>
   interrupt_only (if c then a else b)"
  by simp

lemma interrupt_only_case_option:
  "interrupt_only a \<Longrightarrow> (\<And>p. interrupt_only (f p)) \<Longrightarrow>
   interrupt_only (case x of None \<Rightarrow> a | Some p \<Rightarrow> f p)"
  by (cases x) simp_all

lemma interrupt_only_state_access:
  "interrupt_only get_current_process" "interrupt_only (set_current_process p)"
  "interrupt_only get_last_mtime" "interrupt_only (set_last_mtime v)"
  by (simp_all add: interrupt_only_def clean_interrupt_def get_current_process_def
        set_current_process_def get_last_mtime_def set_last_mtime_def)

text \<open>The \<open>try\<close> of lines 45--49: the timeout is caught, whatever the wait answers.\<close>

lemma interrupt_only_wait:
  "interrupt_only (try_except (wait p d b)
     (\<lambda>e. if e = TimeoutExpired then Some (seq (print m) (tick (Kill p))) else None))"
  by (simp add: interrupt_only_def clean_interrupt_def try_except_def wait_def seq_def
        and_then_def tick_def raise_def ret_def print_def split: option.split nat.split)

lemma interrupt_only_popen: "interrupt_only (popen argv fails p)"
  by (simp add: interrupt_only_def clean_interrupt_def popen_def seq_def and_then_def tick_def
        raise_def ret_def split: option.split nat.split)

lemma interrupt_only_scan: "interrupt_only (scan env)"
  by (simp add: interrupt_only_def clean_interrupt_def scan_def seq_def and_then_def tick_def
        ret_def split: option.split nat.split)

lemmas interrupt_only_intros =
  interrupt_only_seq interrupt_only_and_then interrupt_only_wait interrupt_only_tick
  interrupt_only_print_sleep interrupt_only_popen interrupt_only_scan
  interrupt_only_ret interrupt_only_if interrupt_only_case_option interrupt_only_state_access

lemma build_interrupt_only: "interrupt_only (build env)"
  unfolding build_def by (intro interrupt_only_intros)

lemma run_app_interrupt_only: "interrupt_only (run_app env)"
  unfolding run_app_def by (intro interrupt_only_intros)

lemma build_then_run_interrupt_only: "interrupt_only (build_then_run env)"
  unfolding build_then_run_def
  by (intro interrupt_only_intros build_interrupt_only run_app_interrupt_only)

lemma watch_cycle_interrupt_only: "interrupt_only (watch_cycle env)"
  unfolding watch_cycle_def
  by (intro interrupt_only_intros build_then_run_interrupt_only)

lemma loop_interrupt_only: "interrupt_only (loop cs)"
  by (induction cs) (simp_all add: interrupt_only_intros watch_cycle_interrupt_only)

section \<open>C1: the binary is missing\<close>

text \<open>
  Claim C1, as amended. When \<open>run_app\<close> finds no binary at the build-output path it
  leaves the stored handle as it was, wherever an interrupt may fall: no handle if none
  was stored, and otherwise the handle of the previous instance. Without an interrupt it
  returns normally, its last action is the message that the binary was not found, and it
  launches nothing.
\<close>

theorem run_app_binary_absent:
  "\<not> binary_exists env \<Longrightarrow>
     current_process (snd (run_app env s)) = current_process s
     \<and> (pending s = None \<longrightarrow>
          fst (run_app env s) = Inr ()
          \<and> last (log (snd (run_app env s))) = Print (''App binary not found at '' @ APP_PATH)
          \<and> list_all (\<lambda>e. \<not> is_launch e) (new_events s (snd (run_app env s))))"
proof (intro conjI impI)
  assume a: "\<not> binary_exists env"
  from run_app_absent_same_handle[OF a]
  show "current_process (snd (run_app env s)) = current_process s"
    by (simp add: keeps_def same_handle_def)
  assume p: "pending s = None"
  show "fst (run_app env s) = Inr ()"
    by (cases "current_process s") (simp_all add: run_app_no_handle run_app_handle p a)
  show "last (log (snd (run_app env s))) = Print (''App binary not found at '' @ APP_PATH)"
    by (cases "current_process s") (simp_all add: run_app_no_handle run_app_handle p a)
  show "list_all (\<lambda>e. \<not> is_launch e) (new_events s (snd (run_app env s)))"
    by (cases "current_process s")
       (simp_all add: run_app_no_handle run_app_handle p a new_events_def is_launch_def)
qed

text \<open>With process 7 tracked and the binary missing, the handle after the run is still 7.\<close>

theorem run_app_binary_absent_witness:
  "\<not> binary_exists env_missing \<and> pending (tracking 7) = None
   \<and> current_process (snd (run_app env_missing (tracking 7))) = current_process (tracking 7)
   \<and> fst (run_app env_missing (tracking 7)) = Inr ()"
proof -
  have a: "\<not> binary_exists env_missing" by (simp add: env_missing_def)
  have p: "pending (tracking 7) = None" by (simp add: tracking_def)
  from run_app_binary_absent[OF a, of "tracking 7"] a p show ?thesis by blast
qed

text \<open>
  The handle is not cleared: nothing in the script assigns \<open>None\<close> to
  \<open>current_process\<close>, and the branch of line 63 only prints.
\<close>

theorem run_app_keeps_stale_handle_counterexample:
  "\<not> binary_exists env_missing
   \<and> current_process (tracking 7) = Some 7
   \<and> current_process (snd (run_app env_missing (tracking 7))) = Some 7
   \<and> current_process (snd (run_app env_missing (tracking 7))) \<noteq> None"
  by (simp add: run_app_handle[of _ 7] env_missing_def tracking_def)

section \<open>C6: running with no handle\<close>




section \<open>C7: stopping the previous instance\<close>

text \<open>
  Claim C7. With the handle of process \<open>p\<close> stored, \<open>run_app\<close> first requests
  termination of \<open>p\<close> and waits for it with a timeout of one second; when the wait times
  out it kills \<open>p\<close>. In both cases it goes on with the kill by name and the launch, and
  how it ends does not depend on the timeout: normally, or with the error of a launch
  that fails. The timeout never leaves \<open>run_app\<close> as an exception, in any state.
\<close>

theorem run_app_stops_previous:
  "(current_process s = Some p \<and> pending s = None \<longrightarrow>
      run_app env s =
        (if binary_exists env \<and> launch_fails env then Inl OSError else Inr (),
         s\<lparr>current_process :=
             (if binary_exists env \<and> \<not> launch_fails env then Some (new_pid env) else Some p),
           log := log s @
             [Print ''Stopping previous instance...'', Terminate p, Wait p 1] @
             (if wait_times_out env then [Print ''Force killing...'', Kill p] else []) @
             [Run killall_argv, Sleep (1/2), Print ''Running app (logs will appear below)...'',
              Print (replicate 40 (CHR ''-'')), Exists APP_PATH] @
             (if binary_exists env
              then (if launch_fails env then [PopenFailed [APP_PATH]]
                    else [Popen [APP_PATH] (new_pid env)])
              else [Print (''App binary not found at '' @ APP_PATH)])\<rparr>))
   \<and> fst (run_app env s) \<noteq> Inl TimeoutExpired"
proof (intro conjI impI)
  assume "current_process s = Some p \<and> pending s = None"
  then show "run_app env s =
        (if binary_exists env \<and> launch_fails env then Inl OSError else Inr (),
         s\<lparr>current_process :=
             (if binary_exists env \<and> \<not> launch_fails env then Some (new_pid env) else Some p),
           log := log s @
             [Print ''Stopping previous instance...'', Terminate p, Wait p 1] @
             (if wait_times_out env then [Print ''Force killing...'', Kill p] else []) @
             [Run killall_argv, Sleep (1/2), Print ''Running app (logs will appear below)...'',
              Print (replicate 40 (CHR ''-'')), Exists APP_PATH] @
             (if binary_exists env
              then (if launch_fails env then [PopenFailed [APP_PATH]]
                    else [Popen [APP_PATH] (new_pid env)])
              else [Print (''App binary not found at '' @ APP_PATH)])\<rparr>)"
    by (simp only: run_app_handle)
next
  from run_app_interrupt_only[of env] have "clean_interrupt (run_app env s)"
    by (simp add: interrupt_only_def)
  then show "fst (run_app env s) \<noteq> Inl TimeoutExpired"
    by (auto simp: clean_interrupt_def)
qed

text \<open>
  Process 7 outlives the grace period and is killed; process 8 is launched. With a binary
  that cannot be executed the stop is the same and the launch error leaves \<open>run_app\<close>.
\<close>

theorem run_app_stops_previous_witness:
  "current_process (tracking 7) = Some 7 \<and> pending (tracking 7) = None
   \<and> wait_times_out env_ok
   \<and> run_app env_ok (tracking 7) =
       (Inr (),
        \<lparr>current_process = Some 8, last_mtime = 7,
         log = [Print ''Stopping previous instance...'', Terminate 7, Wait 7 1,
                Print ''Force killing...'', Kill 7,
                Run killall_argv, Sleep (1/2), Print ''Running app (logs will appear below)...'',
                Print (replicate 40 (CHR ''-'')), Exists APP_PATH, Popen [APP_PATH] 8],
         pending = None\<rparr>)
   \<and> wait_times_out env_unlaunchable
   \<and> run_app env_unlaunchable (tracking 7) =
       (Inl OSError,
        \<lparr>current_process = Some 7, last_mtime = 7,
         log = [Print ''Stopping previous instance...'', Terminate 7, Wait 7 1,
                Print ''Force killing...'', Kill 7,
                Run killall_argv, Sleep (1/2), Print ''Running app (logs will appear below)...'',
                Print (replicate 40 (CHR ''-'')), Exists APP_PATH, PopenFailed [APP_PATH]],
         pending = None\<rparr>)"
proof -
  have h: "current_process (tracking 7) = Some 7 \<and> pending (tracking 7) = None"
    by (simp add: tracking_def)
  have w: "wait_times_out env_ok" "wait_times_out env_unlaunchable"
    by (simp_all add: env_ok_def env_unlaunchable_def)
  from run_app_stops_previous[where s = "tracking 7" and p = 7 and env = env_ok,
      THEN conjunct1] h
  have "run_app env_ok (tracking 7) =
        (if binary_exists env_ok \<and> launch_fails env_ok then Inl OSError else Inr (),
         (tracking 7)\<lparr>current_process :=
             (if binary_exists env_ok \<and> \<not> launch_fails env_ok then Some (new_pid env_ok)
              else Some 7),
           log := log (tracking 7) @
             [Print ''Stopping previous instance...'', Terminate 7, Wait 7 1] @
             (if wait_times_out env_ok then [Print ''Force killing...'', Kill 7] else []) @
             [Run killall_argv, Sleep (1/2), Print ''Running app (logs will appear below)...'',
              Print (replicate 40 (CHR ''-'')), Exists APP_PATH] @
             (if binary_exists env_ok
              then (if launch_fails env_ok then [PopenFailed [APP_PATH]]
                    else [Popen [APP_PATH] (new_pid env_ok)])
              else [Print (''App binary not found at '' @ APP_PATH)])\<rparr>)"
    by blast
  then have a1: "run_app env_ok (tracking 7) =
       (Inr (),
        \<lparr>current_process = Some 8, last_mtime = 7,
         log = [Print ''Stopping previous instance...'', Terminate 7, Wait 7 1,
                Print ''Force killing...'', Kill 7,
                Run killall_argv, Sleep (1/2), Print ''Running app (logs will appear below)...'',
                Print (replicate 40 (CHR ''-'')), Exists APP_PATH, Popen [APP_PATH] 8],
         pending = None\<rparr>)"
    by (simp add: tracking_def env_ok_def)
  from run_app_stops_previous[where s = "tracking 7" and p = 7 and env = env_unlaunchable,
      THEN conjunct1] h
  have "run_app env_unlaunchable (tracking 7) =
        (if binary_exists env_unlaunchable \<and> launch_fails env_unlaunchable then Inl OSError
         else Inr (),
         (tracking 7)\<lparr>current_process :=
             (if binary_exists env_unlaunchable \<and> \<not> launch_fails env_unlaunchable
              then Some (new_pid env_unlaunchable) else Some 7),
           log := log (tracking 7) @
             [Print ''Stopping previous instance...'', Terminate 7, Wait 7 1] @
             (if wait_times_out env_unlaunchable then [Print ''Force killing...'', Kill 7]
              else []) @
             [Run killall_argv, Sleep (1/2), Print ''Running app (logs will appear below)...'',
              Print (replicate 40 (CHR ''-'')), Exists APP_PATH] @
             (if binary_exists env_unlaunchable
              then (if launch_fails env_unlaunchable then [PopenFailed [APP_PATH]]
                    else [Popen [APP_PATH] (new_pid env_unlaunchable)])
              else [Print (''App binary not found at '' @ APP_PATH)])\<rparr>)"
    by blast
  then have a2: "run_app env_unlaunchable (tracking 7) =
       (Inl OSError,
        \<lparr>current_process = Some 7, last_mtime = 7,
         log = [Print ''Stopping previous instance...'', Terminate 7, Wait 7 1,
                Print ''Force killing...'', Kill 7,
                Run killall_argv, Sleep (1/2), Print ''Running app (logs will appear below)...'',
                Print (replicate 40 (CHR ''-'')), Exists APP_PATH, PopenFailed [APP_PATH]],
         pending = None\<rparr>)"
    by (simp add: tracking_def env_unlaunchable_def)
  from h w a1 a2 show ?thesis by blast
qed

section \<open>Build and watch cycle: helper lemmas\<close>

lemma keeps_weaken: "keeps R m \<Longrightarrow> (\<And>s s'. R s s' \<Longrightarrow> R' s s') \<Longrightarrow> keeps R' m"
  by (simp add: keeps_def)

lemma build_fails:
  "pending s = None \<Longrightarrow> returncode (build_result env) \<noteq> 0 \<Longrightarrow>
   build env s =
     (Inr False,
      s\<lparr>log := log s @
         [Print ''Building (verbose)...'', Run xcodebuild_argv, Print ''Build failed:''] @
         (if stderr (build_result env) \<noteq> [] then [Print (stderr (build_result env))] else []) @
         (if stdout (build_result env) \<noteq> [] then [Print (stdout (build_result env))] else [])\<rparr>)"
  by (simp add: build_def prog_defs tick_None)

lemma build_succeeds:
  "pending s = None \<Longrightarrow> returncode (build_result env) = 0 \<Longrightarrow>
   build env s =
     (Inr True,
      s\<lparr>log := log s @
         [Print ''Building (verbose)...'', Run xcodebuild_argv, Print ''Build succeeded.'']\<rparr>)"
  by (simp add: build_def prog_defs tick_None)

lemma build_then_run_after_failure:
  "build env s = (Inr False, s1) \<Longrightarrow> build_then_run env s = (Inr (), s1)"
  by (simp add: build_then_run_def and_then_def ret_def)

lemma build_then_run_fails:
  "pending s = None \<Longrightarrow> returncode (build_result env) \<noteq> 0 \<Longrightarrow>
   build_then_run env s =
     (Inr (),
      s\<lparr>log := log s @
         [Print ''Building (verbose)...'', Run xcodebuild_argv, Print ''Build failed:''] @
         (if stderr (build_result env) \<noteq> [] then [Print (stderr (build_result env))] else []) @
         (if stdout (build_result env) \<noteq> [] then [Print (stdout (build_result env))] else [])\<rparr>)"
  by (rule build_then_run_after_failure) (rule build_fails)

lemma build_then_run_same_baseline: "keeps same_baseline (build_then_run env)"
  unfolding build_then_run_def
  by (intro keeps_intros same_baseline_order build_same_baseline run_app_same_baseline)

lemma rebuild_same_baseline: "keeps same_baseline (seq (sleep d) (build_then_run env))"
  unfolding sleep_def
  by (intro keeps_intros same_baseline_order tick_same_baseline build_then_run_same_baseline)

lemma watch_cycle_quiet:
  "\<not> last_mtime s < get_max_mtime (scan_tree env) \<Longrightarrow> pending s = None \<Longrightarrow>
   watch_cycle env s = (Inr (), s\<lparr>log := log s @ [Sleep 1, Walk SOURCE_DIR]\<rparr>)"
  by (simp add: watch_cycle_def prog_defs tick_None)

lemma watch_cycle_quiet_any:
  "\<not> last_mtime s < get_max_mtime (scan_tree env) \<Longrightarrow>
   last_mtime (snd (watch_cycle env s)) = last_mtime s
   \<and> Run xcodebuild_argv \<notin> set (new_events s (snd (watch_cycle env s)))"
  by (simp add: watch_cycle_def prog_defs tick_def split: option.split nat.split)

lemma watch_cycle_prefix:
  "watch_cycle env =
     seq (sleep 1)
     (and_then (scan env) (\<lambda>current_mtime.
      and_then get_last_mtime (\<lambda>last.
        if current_mtime > last then
          seq (print (CHR 0x0A # ''Change detected. Rebuilding...''))
          (seq (set_last_mtime current_mtime) (seq (sleep (1/2)) (build_then_run env)))
        else ret ())))"
  by (simp add: watch_cycle_def)

lemma change_prefix:
  assumes "last_mtime s < get_max_mtime (scan_tree env)" and "pending s = None"
  shows "seq (tick a)
     (and_then (scan env) (\<lambda>current_mtime.
      and_then get_last_mtime (\<lambda>last.
        if current_mtime > last then seq (tick c) (seq (set_last_mtime current_mtime) m)
        else ret ()))) s
     = m (s\<lparr>log := log s @ [a, Walk SOURCE_DIR, c],
            last_mtime := get_max_mtime (scan_tree env)\<rparr>)"
  using assms
  by (simp add: scan_def seq_def and_then_def ret_def get_last_mtime_def set_last_mtime_def
        tick_None)

lemma change_prefix_late:
  assumes "last_mtime s < get_max_mtime (scan_tree env)"
    and "pending s = Some (Suc (Suc (Suc k)))"
  shows "seq (tick a)
     (and_then (scan env) (\<lambda>current_mtime.
      and_then get_last_mtime (\<lambda>last.
        if current_mtime > last then seq (tick c) (seq (set_last_mtime current_mtime) m)
        else ret ()))) s
     = m (s\<lparr>log := log s @ [a, Walk SOURCE_DIR, c], pending := Some k,
            last_mtime := get_max_mtime (scan_tree env)\<rparr>)"
  using assms
  by (simp add: scan_def seq_def and_then_def ret_def get_last_mtime_def set_last_mtime_def
        tick_def)

text \<open>The interrupt falls in the scan, inside the \<open>try\<close>: the cycle goes on.\<close>

lemma change_prefix_swallowed:
  assumes "last_mtime s < get_max_mtime (scan_tree env)" and "pending s = Some (Suc 0)"
    and "interrupt_in_try env" and "enters_try (scan_tree env)"
  shows "seq (tick a)
     (and_then (scan env) (\<lambda>current_mtime.
      and_then get_last_mtime (\<lambda>last.
        if current_mtime > last then seq (tick c) (seq (set_last_mtime current_mtime) m)
        else ret ()))) s
     = m (s\<lparr>pending := None, log := log s @ [a, Walk SOURCE_DIR, c],
            last_mtime := get_max_mtime (scan_tree env)\<rparr>)"
  using assms
  by (simp add: scan_def seq_def and_then_def ret_def get_last_mtime_def set_last_mtime_def
        tick_def)

lemma change_prefix_early:
  assumes "pending s = Some k" and "k < 3" and "last_mtime s < get_max_mtime (scan_tree env)"
    and "\<not> (k = Suc 0 \<and> interrupt_in_try env \<and> enters_try (scan_tree env))"
  shows "\<exists>s'. seq (tick a)
     (and_then (scan env) (\<lambda>current_mtime.
      and_then get_last_mtime (\<lambda>last.
        if current_mtime > last then seq (tick c) (seq (set_last_mtime current_mtime) m)
        else ret ()))) s = (Inl KeyboardInterrupt, s')
     \<and> last_mtime s' = last_mtime s \<and> set (new_events s s') \<subseteq> {a, Walk SOURCE_DIR}"
proof -
  from assms(2) consider "k = 0" | "k = Suc 0" | "k = Suc (Suc 0)" by linarith
  then show ?thesis
  proof cases
    case 1
    with assms(1) show ?thesis
      by (simp add: seq_def and_then_def tick_def new_events_def)
  next
    case 2
    with assms(1,4) show ?thesis
      by (auto simp: scan_def seq_def and_then_def tick_def new_events_def)
  next
    case 3
    with assms(1,3) show ?thesis
      by (simp add: scan_def seq_def and_then_def ret_def get_last_mtime_def tick_def
            new_events_def)
  qed
qed

lemma watch_cycle_change:
  "last_mtime s < get_max_mtime (scan_tree env) \<Longrightarrow> pending s = None \<Longrightarrow>
   watch_cycle env s =
     seq (sleep (1/2)) (build_then_run env)
       (s\<lparr>log := log s @ [Sleep 1, Walk SOURCE_DIR,
                          Print (CHR 0x0A # ''Change detected. Rebuilding...'')],
          last_mtime := get_max_mtime (scan_tree env)\<rparr>)"
  unfolding watch_cycle_prefix print_def sleep_def[of 1]
  by (rule change_prefix)

lemma watch_cycle_change_late:
  "last_mtime s < get_max_mtime (scan_tree env) \<Longrightarrow> pending s = Some (Suc (Suc (Suc k))) \<Longrightarrow>
   watch_cycle env s =
     seq (sleep (1/2)) (build_then_run env)
       (s\<lparr>log := log s @ [Sleep 1, Walk SOURCE_DIR,
                          Print (CHR 0x0A # ''Change detected. Rebuilding...'')],
          pending := Some k, last_mtime := get_max_mtime (scan_tree env)\<rparr>)"
  unfolding watch_cycle_prefix print_def sleep_def[of 1]
  by (rule change_prefix_late)

lemma watch_cycle_change_swallowed:
  "last_mtime s < get_max_mtime (scan_tree env) \<Longrightarrow> pending s = Some (Suc 0) \<Longrightarrow>
   interrupt_in_try env \<Longrightarrow> enters_try (scan_tree env) \<Longrightarrow>
   watch_cycle env s =
     seq (sleep (1/2)) (build_then_run env)
       (s\<lparr>pending := None,
          log := log s @ [Sleep 1, Walk SOURCE_DIR,
                          Print (CHR 0x0A # ''Change detected. Rebuilding...'')],
          last_mtime := get_max_mtime (scan_tree env)\<rparr>)"
  unfolding watch_cycle_prefix print_def sleep_def[of 1]
  by (rule change_prefix_swallowed)

lemma watch_cycle_early:
  assumes "\<not> not_before 3 s" and "last_mtime s < get_max_mtime (scan_tree env)"
    and "\<not> (pending s = Some (Suc 0) \<and> interrupt_in_try env \<and> enters_try (scan_tree env))"
  shows "last_mtime (snd (watch_cycle env s)) = last_mtime s
   \<and> Run xcodebuild_argv \<notin> set (new_events s (snd (watch_cycle env s)))"
proof -
  from assms(1) obtain k where k: "pending s = Some k" "k < 3"
    by (auto simp: not_before_def split: option.splits)
  from assms(3) k(1)
  have n: "\<not> (k = Suc 0 \<and> interrupt_in_try env \<and> enters_try (scan_tree env))" by simp
  from change_prefix_early[OF k assms(2) n, where a = "Sleep 1"
      and c = "Print (CHR 0x0A # ''Change detected. Rebuilding...'')"
      and m = "seq (sleep (1/2)) (build_then_run env)"]
  obtain s' where "watch_cycle env s = (Inl KeyboardInterrupt, s')"
    and "last_mtime s' = last_mtime s"
    and "set (new_events s s') \<subseteq> {Sleep 1, Walk SOURCE_DIR}"
    unfolding watch_cycle_prefix print_def sleep_def[of 1] by blast
  then show ?thesis by auto
qed

lemma at_least_3: "3 \<le> n \<longleftrightarrow> (\<exists>k. n = Suc (Suc (Suc k)))"
proof
  assume "3 \<le> n"
  then have "n = Suc (Suc (Suc (n - 3)))" by simp
  then show "\<exists>k. n = Suc (Suc (Suc k))" ..
next
  assume "\<exists>k. n = Suc (Suc (Suc k))"
  then show "3 \<le> n" by auto
qed

lemma at_least_2: "2 \<le> n \<longleftrightarrow> (\<exists>k. n = Suc (Suc k))"
proof
  assume "2 \<le> n"
  then have "n = Suc (Suc (n - 2))" by simp
  then show "\<exists>k. n = Suc (Suc k)" ..
next
  assume "\<exists>k. n = Suc (Suc k)"
  then show "2 \<le> n" by auto
qed

lemma not_before_3:
  "not_before 3 s \<longleftrightarrow> pending s = None \<or> (\<exists>k. pending s = Some (Suc (Suc (Suc k))))"
  by (cases "pending s") (simp_all add: not_before_def at_least_3)

lemma not_before_2:
  "not_before 2 s \<longleftrightarrow> pending s = None \<or> (\<exists>k. pending s = Some (Suc (Suc k)))"
  by (cases "pending s") (simp_all add: not_before_def at_least_2)

lemma watch_cycle_change_baseline:
  assumes "last_mtime s < get_max_mtime (scan_tree env)" and "not_before 3 s"
  shows "last_mtime (snd (watch_cycle env s)) = get_max_mtime (scan_tree env)"
proof -
  have k: "last_mtime (snd (seq (sleep (1/2)) (build_then_run env) s')) = last_mtime s'" for s'
    using rebuild_same_baseline[of "1/2" env] by (simp add: keeps_def same_baseline_def)
  from assms(2) consider "pending s = None" | k where "pending s = Some (Suc (Suc (Suc k)))"
    by (auto simp: not_before_3)
  then show ?thesis
  proof cases
    case 1
    show ?thesis by (simp add: watch_cycle_change[OF assms(1) 1] k)
  next
    case 2
    show ?thesis by (simp add: watch_cycle_change_late[OF assms(1) 2] k)
  qed
qed

lemma watch_cycle_step:
  "last_mtime (snd (watch_cycle env s)) = last_mtime s
   \<or> (last_mtime s < get_max_mtime (scan_tree env)
       \<and> last_mtime (snd (watch_cycle env s)) = get_max_mtime (scan_tree env))"
proof (cases "last_mtime s < get_max_mtime (scan_tree env)")
  case False
  then show ?thesis by (simp add: watch_cycle_quiet_any)
next
  case True
  have k: "last_mtime (snd (seq (sleep (1/2)) (build_then_run env) s')) = last_mtime s'" for s'
    using rebuild_same_baseline[of "1/2" env] by (simp add: keeps_def same_baseline_def)
  show ?thesis
  proof (cases "not_before 3 s")
    case nb: True
    from watch_cycle_change_baseline[OF True nb] True show ?thesis by simp
  next
    case False
    show ?thesis
    proof (cases "pending s = Some (Suc 0) \<and> interrupt_in_try env \<and> enters_try (scan_tree env)")
      case sw: True
      then have "watch_cycle env s =
          seq (sleep (1/2)) (build_then_run env)
            (s\<lparr>pending := None,
               log := log s @ [Sleep 1, Walk SOURCE_DIR,
                               Print (CHR 0x0A # ''Change detected. Rebuilding...'')],
               last_mtime := get_max_mtime (scan_tree env)\<rparr>)"
        using True by (simp add: watch_cycle_change_swallowed)
      then show ?thesis using True by (simp add: k)
    next
      case ns: False
      from watch_cycle_early[OF False True ns] show ?thesis by simp
    qed
  qed
qed

lemma watch_cycle_baseline_grows: "keeps baseline_grows (watch_cycle env)"
  unfolding keeps_def baseline_grows_def
proof
  fix s
  from watch_cycle_step[of env s] show "last_mtime s \<le> last_mtime (snd (watch_cycle env s))"
    by auto
qed

lemma loop_baseline_grows: "keeps baseline_grows (loop cs)"
  by (induction cs)
     (simp_all add: keeps_ret keeps_seq baseline_grows_order watch_cycle_baseline_grows)

lemma on_interrupt_same_baseline: "keeps same_baseline on_interrupt"
  unfolding on_interrupt_def print_def
  by (intro keeps_intros same_baseline_order tick_same_baseline)

lemma same_baseline_grows: "same_baseline s s' \<Longrightarrow> baseline_grows s s'"
  by (simp add: same_baseline_def baseline_grows_def)

lemma after_scan_baseline_grows:
  "keeps baseline_grows
     (seq (build_then_run init)
        (try_except (loop cs) (\<lambda>e. if e = KeyboardInterrupt then Some on_interrupt else None)))"
  by (intro keeps_seq keeps_try_except baseline_grows_order loop_baseline_grows
        keeps_weaken[OF build_then_run_same_baseline same_baseline_grows])
     (auto intro: keeps_weaken[OF on_interrupt_same_baseline same_baseline_grows]
        split: if_splits)

lemma startup_prefix:
  assumes "not_before 2 s"
  shows "\<exists>s2. last_mtime s2 = get_max_mtime (scan_tree env) \<and>
     seq (tick a) (seq (and_then (scan env) set_last_mtime) m) s = m s2"
proof -
  from assms consider "pending s = None" | k where "pending s = Some (Suc (Suc k))"
    by (auto simp: not_before_2)
  then show ?thesis
  proof cases
    case 1
    then have "seq (tick a) (seq (and_then (scan env) set_last_mtime) m) s =
        m (s\<lparr>log := log s @ [a, Walk SOURCE_DIR],
             last_mtime := get_max_mtime (scan_tree env)\<rparr>)"
      by (simp add: scan_def seq_def and_then_def ret_def set_last_mtime_def tick_None)
    then show ?thesis
      by (intro exI[of _ "s\<lparr>log := log s @ [a, Walk SOURCE_DIR],
             last_mtime := get_max_mtime (scan_tree env)\<rparr>"]) simp
  next
    case 2
    then have "seq (tick a) (seq (and_then (scan env) set_last_mtime) m) s =
        m (s\<lparr>log := log s @ [a, Walk SOURCE_DIR], pending := Some k,
             last_mtime := get_max_mtime (scan_tree env)\<rparr>)"
      by (simp add: scan_def seq_def and_then_def ret_def set_last_mtime_def tick_def)
    then show ?thesis
      by (intro exI[of _ "s\<lparr>log := log s @ [a, Walk SOURCE_DIR], pending := Some k,
             last_mtime := get_max_mtime (scan_tree env)\<rparr>"]) simp
  qed
qed

lemma main_after_scan:
  "not_before 2 s \<Longrightarrow>
   \<exists>s2. last_mtime s2 = get_max_mtime (scan_tree init) \<and>
     main init cs s =
       seq (build_then_run init)
         (try_except (loop cs) (\<lambda>e. if e = KeyboardInterrupt then Some on_interrupt else None))
         s2"
  unfolding main_def print_def by (rule startup_prefix)

lemma main_baseline:
  assumes "not_before 2 s"
  shows "get_max_mtime (scan_tree init) \<le> last_mtime (snd (main init cs s))"
proof -
  from main_after_scan[OF assms, of init cs] obtain s2 where
    s2: "last_mtime s2 = get_max_mtime (scan_tree init)" and
    m: "main init cs s =
       seq (build_then_run init)
         (try_except (loop cs) (\<lambda>e. if e = KeyboardInterrupt then Some on_interrupt else None))
         s2" by blast
  from after_scan_baseline_grows[of init cs] have "last_mtime s2 \<le> last_mtime (snd (main init cs s))"
    unfolding m by (simp add: keeps_def baseline_grows_def)
  with s2 show ?thesis by simp
qed


lemma startup_no_interrupt:
  "pending s = None \<Longrightarrow>
   main init cs s =
     seq (build_then_run init)
       (try_except (loop cs) (\<lambda>e. if e = KeyboardInterrupt then Some on_interrupt else None))
       (s\<lparr>log := log s @ [Print (''Watching for changes in '' @ SOURCE_DIR @ ''...''),
                         Walk SOURCE_DIR],
          last_mtime := get_max_mtime (scan_tree init)\<rparr>)"
  unfolding main_def scan_def print_def
  by (simp add: seq_def and_then_def ret_def set_last_mtime_def tick_None)

lemma try_except_loop_Nil: "try_except (loop []) h s = (Inr (), s)"
  by (simp add: try_except_def ret_def)

lemma seq_Inr: "m s = (Inr v, s1) \<Longrightarrow> seq m n s = n s1"
  by (simp add: seq_def and_then_def)

lemma main_startup_failed:
  assumes "pending s = None" and "returncode (build_result init) \<noteq> 0"
  shows "main init [] s =
     (Inr (),
      s\<lparr>log := log s @
         [Print (''Watching for changes in '' @ SOURCE_DIR @ ''...''), Walk SOURCE_DIR,
          Print ''Building (verbose)...'', Run xcodebuild_argv, Print ''Build failed:''] @
         (if stderr (build_result init) \<noteq> [] then [Print (stderr (build_result init))] else []) @
         (if stdout (build_result init) \<noteq> [] then [Print (stdout (build_result init))] else []),
        last_mtime := get_max_mtime (scan_tree init)\<rparr>)"
proof -
  let ?s1 = "s\<lparr>log := log s @ [Print (''Watching for changes in '' @ SOURCE_DIR @ ''...''),
                         Walk SOURCE_DIR],
          last_mtime := get_max_mtime (scan_tree init)\<rparr>"
  have p: "pending ?s1 = None" using assms(1) by simp
  note b = build_then_run_fails[OF p assms(2)]
  show ?thesis
    unfolding startup_no_interrupt[OF assms(1)]
      seq_Inr[where m = "build_then_run init" and s = ?s1, OF b] try_except_loop_Nil
    by simp
qed

lemma watch_cycle_failed:
  assumes "pending s = None" and "returncode (build_result env) \<noteq> 0"
    and "last_mtime s < get_max_mtime (scan_tree env)"
  shows "watch_cycle env s =
     (Inr (),
      s\<lparr>log := log s @
         [Sleep 1, Walk SOURCE_DIR, Print (CHR 0x0A # ''Change detected. Rebuilding...''),
          Sleep (1/2),
          Print ''Building (verbose)...'', Run xcodebuild_argv, Print ''Build failed:''] @
         (if stderr (build_result env) \<noteq> [] then [Print (stderr (build_result env))] else []) @
         (if stdout (build_result env) \<noteq> [] then [Print (stdout (build_result env))] else []),
        last_mtime := get_max_mtime (scan_tree env)\<rparr>)"
proof -
  let ?s1 = "s\<lparr>log := log s @ [Sleep 1, Walk SOURCE_DIR,
                          Print (CHR 0x0A # ''Change detected. Rebuilding...'')],
          last_mtime := get_max_mtime (scan_tree env)\<rparr>"
  let ?s2 = "?s1\<lparr>log := log ?s1 @ [Sleep (1/2)]\<rparr>"
  have sl: "sleep (1/2) ?s1 = (Inr (), ?s2)" using assms(1) by (simp add: sleep_def tick_None)
  have p: "pending ?s2 = None" using assms(1) by simp
  show ?thesis
    unfolding watch_cycle_change[OF assms(3) assms(1)]
      seq_Inr[where m = "sleep (1/2)" and s = ?s1, OF sl]
      build_then_run_fails[OF p assms(2)]
    by simp
qed

lemma build_then_run_logs_build:
  assumes "pending s = None"
  shows "Run xcodebuild_argv \<in> set (new_events s (snd (build_then_run env s)))"
proof (cases "returncode (build_result env) = 0")
  case False
  show ?thesis by (simp add: build_then_run_fails[OF assms False] new_events_def)
next
  case True
  let ?s1 = "s\<lparr>log := log s @
         [Print ''Building (verbose)...'', Run xcodebuild_argv, Print ''Build succeeded.'']\<rparr>"
  have b: "build_then_run env s = run_app env ?s1"
    by (simp add: build_then_run_def and_then_def build_succeeds[OF assms True])
  have p: "pending ?s1 = None" using assms by simp
  show ?thesis
  proof (cases "current_process s")
    case None
    then have c: "current_process ?s1 = None" by simp
    show ?thesis unfolding b run_app_no_handle[OF c p] by (simp add: new_events_def)
  next
    case (Some q)
    then have c: "current_process ?s1 = Some q" by simp
    show ?thesis unfolding b run_app_handle[OF c p] by (simp add: new_events_def)
  qed
qed

lemma new_events_trans:
  "log s1 = log s @ es \<Longrightarrow> set (new_events s1 s2) \<subseteq> set (new_events s s2)"
  by (simp add: new_events_def) (metis drop_drop set_drop_subset add.commute)

lemma watch_cycle_change_builds:
  assumes "pending s = None" and "last_mtime s < get_max_mtime (scan_tree env)"
  shows "Run xcodebuild_argv \<in> set (new_events s (snd (watch_cycle env s)))"
proof -
  let ?s1 = "s\<lparr>log := log s @ [Sleep 1, Walk SOURCE_DIR,
                          Print (CHR 0x0A # ''Change detected. Rebuilding...'')],
          last_mtime := get_max_mtime (scan_tree env)\<rparr>"
  let ?s2 = "?s1\<lparr>log := log ?s1 @ [Sleep (1/2)]\<rparr>"
  have sl: "sleep (1/2) ?s1 = (Inr (), ?s2)" using assms(1) by (simp add: sleep_def tick_None)
  have p: "pending ?s2 = None" using assms(1) by simp
  have w: "watch_cycle env s = build_then_run env ?s2"
    unfolding watch_cycle_change[OF assms(2) assms(1)]
      seq_Inr[where m = "sleep (1/2)" and s = ?s1, OF sl] ..
  have "log ?s2 = log s @ [Sleep 1, Walk SOURCE_DIR,
       Print (CHR 0x0A # ''Change detected. Rebuilding...''), Sleep (1/2)]" by simp
  from new_events_trans[OF this] build_then_run_logs_build[OF p, of env]
  show ?thesis unfolding w by blast
qed

lemma scan_tree1: "get_max_mtime tree1 = 7"
  by (simp add: tree1_def scan_eval)

section \<open>C2: a failed build does not launch\<close>

text \<open>
  Claim C2. In the initial cycle and in every cycle of the loop, when the build reports
  failure \<open>run_app\<close> is not invoked: \<open>if build(): run_app()\<close> ends in the state that the
  build left, the cycle performs none of the operations that only \<open>run_app\<close> performs,
  and it ends normally, so that the script goes on to the next poll. Every invocation of
  \<open>run_app\<close> would show in the log by its kill by name.
\<close>

theorem failed_build_skips_run:
  "(build env s = (Inr False, s1) \<longrightarrow> build_then_run env s = (Inr (), s1))
   \<and> (pending s = None \<and> returncode (build_result env) \<noteq> 0 \<longrightarrow>
        fst (main env [] s) = Inr ()
        \<and> list_all (\<lambda>e. \<not> from_run_app e) (new_events s (snd (main env [] s)))
        \<and> fst (watch_cycle env s) = Inr ()
        \<and> list_all (\<lambda>e. \<not> from_run_app e) (new_events s (snd (watch_cycle env s))))
   \<and> (pending s = None \<longrightarrow>
        Run killall_argv \<in> set (new_events s (snd (run_app env s)))
        \<and> from_run_app (Run killall_argv))"
proof (intro conjI impI)
  show "build_then_run env s = (Inr (), s1)" if "build env s = (Inr False, s1)"
    using that by (rule build_then_run_after_failure)
next
  assume a: "pending s = None \<and> returncode (build_result env) \<noteq> 0"
  then have p: "pending s = None" and f: "returncode (build_result env) \<noteq> 0" by simp_all
  show "fst (main env [] s) = Inr ()"
    by (simp add: main_startup_failed[OF p f])
  show "list_all (\<lambda>e. \<not> from_run_app e) (new_events s (snd (main env [] s)))"
    by (simp add: main_startup_failed[OF p f] new_events_def from_run_app_def
          xcodebuild_argv_def killall_argv_def)
  show "fst (watch_cycle env s) = Inr ()"
    by (cases "last_mtime s < get_max_mtime (scan_tree env)")
       (simp_all add: watch_cycle_failed[OF p f] watch_cycle_quiet[OF _ p])
  show "list_all (\<lambda>e. \<not> from_run_app e) (new_events s (snd (watch_cycle env s)))"
    by (cases "last_mtime s < get_max_mtime (scan_tree env)")
       (simp_all add: watch_cycle_failed[OF p f] watch_cycle_quiet[OF _ p] new_events_def
          from_run_app_def xcodebuild_argv_def killall_argv_def)
next
  assume p: "pending s = None"
  show "Run killall_argv \<in> set (new_events s (snd (run_app env s)))"
    by (cases "current_process s")
       (simp_all add: run_app_no_handle run_app_handle p new_events_def)
  show "from_run_app (Run killall_argv)" by (simp add: from_run_app_def)
qed

text \<open>
  A build that exits with code 65 while process 7 is tracked: in the initial cycle, and in
  a cycle of the loop that has detected a change (baseline 5, scan 7).
\<close>

theorem failed_build_skips_run_witness:
  "pending (tracking 7) = None \<and> returncode (build_result env_fail) \<noteq> 0
   \<and> build env_fail (tracking 7) =
       (Inr False,
        \<lparr>current_process = Some 7, last_mtime = 7,
         log = [Print ''Building (verbose)...'', Run xcodebuild_argv, Print ''Build failed:'',
                Print ''error''],
         pending = None\<rparr>)
   \<and> build_then_run env_fail (tracking 7) =
       (Inr (),
        \<lparr>current_process = Some 7, last_mtime = 7,
         log = [Print ''Building (verbose)...'', Run xcodebuild_argv, Print ''Build failed:'',
                Print ''error''],
         pending = None\<rparr>)
   \<and> fst (main env_fail [] (tracking 7)) = Inr ()
   \<and> fst (watch_cycle env_fail (tracking 7)) = Inr ()
   \<and> pending (behind None) = None
   \<and> last_mtime (behind None) < get_max_mtime (scan_tree env_fail)
   \<and> Run xcodebuild_argv \<in> set (new_events (behind None)
         (snd (watch_cycle env_fail (behind None))))
   \<and> fst (watch_cycle env_fail (behind None)) = Inr ()
   \<and> list_all (\<lambda>e. \<not> from_run_app e)
         (new_events (behind None) (snd (watch_cycle env_fail (behind None))))"
proof -
  have p: "pending (tracking 7) = None" by (simp add: tracking_def)
  have p': "pending (behind None) = None" by (simp add: behind_def)
  have c': "last_mtime (behind None) < get_max_mtime (scan_tree env_fail)"
    by (simp add: behind_def env_fail_def scan_tree1)
  note built = watch_cycle_change_builds[OF p' c']
  have f: "returncode (build_result env_fail) \<noteq> 0" by (simp add: env_fail_def)
  have b: "build env_fail (tracking 7) =
       (Inr False,
        \<lparr>current_process = Some 7, last_mtime = 7,
         log = [Print ''Building (verbose)...'', Run xcodebuild_argv, Print ''Build failed:'',
                Print ''error''],
         pending = None\<rparr>)"
    by (simp add: build_fails[OF p f]) (simp add: tracking_def env_fail_def)
  from failed_build_skips_run[of env_fail "tracking 7"]
    failed_build_skips_run[of env_fail "behind None", THEN conjunct2, THEN conjunct1]
    p f b p' c' built
  show ?thesis by blast
qed

section \<open>C10: a failed build leaves the running instance alone\<close>

text \<open>
  Claim C10. When the build fails, the cycle leaves the stored handle as it was and sends
  no terminate, no kill and no kill by name, and it launches nothing: this holds for
  \<open>if build(): run_app()\<close> wherever an interrupt may fall, and for the whole initial
  cycle and the whole cycle of the loop when no interrupt arrives.
\<close>

theorem failed_build_leaves_process_alone:
  "(build env s = (Inr False, s1) \<longrightarrow>
      current_process (snd (build_then_run env s)) = current_process s
      \<and> list_all (\<lambda>e. \<not> is_signal e \<and> \<not> is_launch e)
           (new_events s (snd (build_then_run env s))))
   \<and> (pending s = None \<and> returncode (build_result env) \<noteq> 0 \<longrightarrow>
        current_process (snd (watch_cycle env s)) = current_process s
        \<and> list_all (\<lambda>e. \<not> is_signal e \<and> \<not> is_launch e)
             (new_events s (snd (watch_cycle env s)))
        \<and> current_process (snd (main env [] s)) = current_process s
        \<and> list_all (\<lambda>e. \<not> is_signal e \<and> \<not> is_launch e)
             (new_events s (snd (main env [] s))))"
proof (intro conjI impI)
  assume b: "build env s = (Inr False, s1)"
  then have r: "snd (build_then_run env s) = snd (build env s)"
    by (simp add: build_then_run_after_failure)
  from build_same_handle[of env]
  show "current_process (snd (build_then_run env s)) = current_process s"
    unfolding r by (simp add: keeps_def same_handle_def)
  from build_emits[of env] obtain es where
    "log (snd (build env s)) = log s @ es"
    "list_all (\<lambda>e. \<not> is_signal e \<and> \<not> is_launch e) es"
    by (auto simp: keeps_def emits_def)
  then show "list_all (\<lambda>e. \<not> is_signal e \<and> \<not> is_launch e)
      (new_events s (snd (build_then_run env s)))"
    unfolding r by (simp add: new_events_def)
next
  assume a: "pending s = None \<and> returncode (build_result env) \<noteq> 0"
  then have p: "pending s = None" and f: "returncode (build_result env) \<noteq> 0" by simp_all
  show "current_process (snd (watch_cycle env s)) = current_process s"
    by (cases "last_mtime s < get_max_mtime (scan_tree env)")
       (simp_all add: watch_cycle_failed[OF p f] watch_cycle_quiet[OF _ p])
  show "list_all (\<lambda>e. \<not> is_signal e \<and> \<not> is_launch e) (new_events s (snd (watch_cycle env s)))"
    by (cases "last_mtime s < get_max_mtime (scan_tree env)")
       (simp_all add: watch_cycle_failed[OF p f] watch_cycle_quiet[OF _ p] new_events_def
          is_signal_def is_launch_def xcodebuild_argv_def killall_argv_def)
  show "current_process (snd (main env [] s)) = current_process s"
    by (simp add: main_startup_failed[OF p f])
  show "list_all (\<lambda>e. \<not> is_signal e \<and> \<not> is_launch e) (new_events s (snd (main env [] s)))"
    by (simp add: main_startup_failed[OF p f] new_events_def is_signal_def is_launch_def
          xcodebuild_argv_def killall_argv_def)
qed

text \<open>
  Process 7 is tracked, the scan finds a change (baseline 5, scan 7), the build fails:
  the handle is still 7 afterwards.
\<close>

theorem failed_build_leaves_process_alone_witness:
  "pending ((tracking 7)\<lparr>last_mtime := 5\<rparr>) = None \<and> returncode (build_result env_fail) \<noteq> 0
   \<and> last_mtime ((tracking 7)\<lparr>last_mtime := 5\<rparr>) < get_max_mtime (scan_tree env_fail)
   \<and> fst (build env_fail ((tracking 7)\<lparr>last_mtime := 5\<rparr>)) = Inr False
   \<and> current_process (snd (build_then_run env_fail ((tracking 7)\<lparr>last_mtime := 5\<rparr>))) = Some 7
   \<and> current_process (snd (watch_cycle env_fail ((tracking 7)\<lparr>last_mtime := 5\<rparr>))) = Some 7
   \<and> current_process (snd (main env_fail [] ((tracking 7)\<lparr>last_mtime := 5\<rparr>))) = Some 7"
proof -
  let ?s = "(tracking 7)\<lparr>last_mtime := 5\<rparr>"
  have p: "pending ?s = None" by (simp add: tracking_def)
  have f: "returncode (build_result env_fail) \<noteq> 0" by (simp add: env_fail_def)
  have c: "current_process ?s = Some 7" by (simp add: tracking_def)
  have l: "last_mtime ?s < get_max_mtime (scan_tree env_fail)"
    by (simp add: env_fail_def scan_tree1 tracking_def)
  have b: "build env_fail ?s = (Inr False, snd (build env_fail ?s))"
    by (simp add: build_fails[OF p f])
  from failed_build_leaves_process_alone[of env_fail ?s "snd (build env_fail ?s)"] p f b c l
  show ?thesis by (simp add: build_fails[OF p f])
qed

section \<open>C4: when a rebuild is triggered\<close>

text \<open>
  Claim C4. A cycle of the loop runs the build exactly when its scan is strictly greater
  than the stored baseline. A tree that holds a watched file with a readable timestamp
  strictly past a bound scans strictly past that bound. Two trees that differ only in
  files with non-watched names have the same scan, and such a change triggers nothing:
  with a baseline at or above the scan of the one tree, a cycle on the other tree only
  sleeps and scans.
\<close>

theorem rebuild_exactly_on_newer_scan:
  "(pending s = None \<longrightarrow>
      (Run xcodebuild_argv \<in> set (new_events s (snd (watch_cycle env s)))
         \<longleftrightarrow> last_mtime s < get_max_mtime (scan_tree env)))
   \<and> ((n, Some t) \<in> set (all_files tree) \<and> watched n \<and> b < t \<longrightarrow> b < get_max_mtime tree)
   \<and> (watched_only tree' = watched_only tree \<longrightarrow> get_max_mtime tree' = get_max_mtime tree)
   \<and> (pending s = None \<and> watched_only (scan_tree env) = watched_only tree
        \<and> get_max_mtime tree \<le> last_mtime s \<longrightarrow>
        watch_cycle env s = (Inr (), s\<lparr>log := log s @ [Sleep 1, Walk SOURCE_DIR]\<rparr>))"
proof (intro conjI impI)
  assume p: "pending s = None"
  show "Run xcodebuild_argv \<in> set (new_events s (snd (watch_cycle env s)))
         \<longleftrightarrow> last_mtime s < get_max_mtime (scan_tree env)"
  proof (cases "last_mtime s < get_max_mtime (scan_tree env)")
    case True
    with watch_cycle_change_builds[OF p True] show ?thesis by simp
  next
    case False
    with watch_cycle_quiet_any[OF False] show ?thesis by simp
  qed
next
  assume a: "(n, Some t) \<in> set (all_files tree) \<and> watched n \<and> b < t"
  then have m: "(n, Some t) \<in> set (all_files tree)" and w: "watched n" and l: "b < t"
    by blast+
  from watched_file_bound[OF m w] l show "b < get_max_mtime tree" by linarith
next
  assume "watched_only tree' = watched_only tree"
  then show "get_max_mtime tree' = get_max_mtime tree" by (rule get_max_mtime_watched_only)
next
  assume a: "pending s = None \<and> watched_only (scan_tree env) = watched_only tree
        \<and> get_max_mtime tree \<le> last_mtime s"
  then have p: "pending s = None" and wo: "watched_only (scan_tree env) = watched_only tree"
    and le: "get_max_mtime tree \<le> last_mtime s" by blast+
  from get_max_mtime_watched_only[OF wo] le
  have q: "\<not> last_mtime s < get_max_mtime (scan_tree env)" by simp
  show "watch_cycle env s = (Inr (), s\<lparr>log := log s @ [Sleep 1, Walk SOURCE_DIR]\<rparr>)"
    by (rule watch_cycle_quiet[OF q p])
qed

text \<open>
  With baseline 7: touching \<open>A.swift\<close> to 10 makes the next cycle build; touching
  \<open>notes.txt\<close> and creating \<open>README.md\<close> leaves the scan at 7 and the cycle idle.
\<close>

theorem rebuild_exactly_on_newer_scan_witness:
  "pending (tracking 7) = None
   \<and> (''A.swift'', Some 10) \<in> set (all_files tree1_touched) \<and> watched ''A.swift''
   \<and> last_mtime (tracking 7) < 10
   \<and> last_mtime (tracking 7) < get_max_mtime tree1_touched
   \<and> Run xcodebuild_argv \<in> set (new_events (tracking 7)
         (snd (watch_cycle (env_ok\<lparr>scan_tree := tree1_touched\<rparr>) (tracking 7))))
   \<and> tree1_notes \<noteq> tree1 \<and> watched_only tree1_notes = watched_only tree1
   \<and> get_max_mtime tree1_notes = get_max_mtime tree1
   \<and> get_max_mtime tree1 \<le> last_mtime (tracking 7)
   \<and> watch_cycle (env_ok\<lparr>scan_tree := tree1_notes\<rparr>) (tracking 7) =
       (Inr (), (tracking 7)\<lparr>log := log (tracking 7) @ [Sleep 1, Walk SOURCE_DIR]\<rparr>)"
proof -
  let ?s = "tracking 7"
  let ?touched = "env_ok\<lparr>scan_tree := tree1_touched\<rparr>"
  let ?notes = "env_ok\<lparr>scan_tree := tree1_notes\<rparr>"
  have p: "pending ?s = None" and l: "last_mtime ?s = 7" by (simp_all add: tracking_def)
  have l10: "last_mtime ?s < 10" by (simp add: l)
  have f: "(''A.swift'', Some 10) \<in> set (all_files tree1_touched)"
    by (simp add: tree1_touched_def all_files_def files_at_def file_entries_def dir_names_def)
  have w: "watched ''A.swift''" by (simp add: watched_def endswith_def)
  have wo: "watched_only tree1_notes = watched_only tree1"
    by (simp add: tree1_notes_def tree1_def watched_only_def watched_def endswith_def)
  have ne: "tree1_notes \<noteq> tree1" by (simp add: tree1_notes_def tree1_def)
  have st: "scan_tree ?touched = tree1_touched" and sn: "scan_tree ?notes = tree1_notes"
    by simp_all
  note thm1 = rebuild_exactly_on_newer_scan[where s = ?s and env = ?touched
      and n = "''A.swift''" and t = 10 and tree = tree1_touched and b = "last_mtime ?s"]
  note thm2 = rebuild_exactly_on_newer_scan[where s = ?s and env = ?notes and tree = tree1
      and tree' = tree1_notes]
  from thm1[THEN conjunct2, THEN conjunct1] f w l10
  have g: "last_mtime ?s < get_max_mtime tree1_touched" by blast
  from thm1[THEN conjunct1] p g
  have r: "Run xcodebuild_argv \<in> set (new_events ?s (snd (watch_cycle ?touched ?s)))"
    unfolding st by blast
  from thm2[THEN conjunct2, THEN conjunct2, THEN conjunct1] wo
  have e: "get_max_mtime tree1_notes = get_max_mtime tree1" by blast
  have le: "get_max_mtime tree1 \<le> last_mtime ?s" by (simp add: scan_tree1 l)
  from thm2[THEN conjunct2, THEN conjunct2, THEN conjunct2] p wo le
  have q: "watch_cycle ?notes ?s = (Inr (), ?s\<lparr>log := log ?s @ [Sleep 1, Walk SOURCE_DIR]\<rparr>)"
    unfolding sn by blast
  show ?thesis by (intro conjI) (fact p f w l10 g r ne wo e le q)+
qed

section \<open>C5: the baseline is updated before the rebuild\<close>

text \<open>
  Claim C5. When a cycle detects a change (and the interrupt does not fall before the
  detection), the baseline it leaves is the new scan value, whatever happens in the
  debounce delay, the build and the launch. The update comes before the debounce delay:
  an interrupt that falls on that delay finds the baseline already updated. A following
  cycle that scans the same tree only sleeps and scans: it does not build again.
\<close>

theorem baseline_updated_before_rebuild:
  "(last_mtime s < get_max_mtime (scan_tree env) \<and> not_before 3 s \<longrightarrow>
       last_mtime (snd (watch_cycle env s)) = get_max_mtime (scan_tree env))
   \<and> (last_mtime s < get_max_mtime (scan_tree env) \<and> pending s = Some 3 \<longrightarrow>
       watch_cycle env s =
         (Inl KeyboardInterrupt,
          s\<lparr>log := log s @ [Sleep 1, Walk SOURCE_DIR,
                            Print (CHR 0x0A # ''Change detected. Rebuilding...'')],
            pending := None, last_mtime := get_max_mtime (scan_tree env)\<rparr>))
   \<and> (last_mtime s < get_max_mtime (scan_tree env) \<and> not_before 3 s
        \<and> scan_tree env' = scan_tree env \<and> pending (snd (watch_cycle env s)) = None \<longrightarrow>
       watch_cycle env' (snd (watch_cycle env s)) =
         (Inr (), (snd (watch_cycle env s))
                    \<lparr>log := log (snd (watch_cycle env s)) @ [Sleep 1, Walk SOURCE_DIR]\<rparr>))"
proof (intro conjI impI)
  assume "last_mtime s < get_max_mtime (scan_tree env) \<and> not_before 3 s"
  then show "last_mtime (snd (watch_cycle env s)) = get_max_mtime (scan_tree env)"
    by (simp add: watch_cycle_change_baseline)
next
  assume a: "last_mtime s < get_max_mtime (scan_tree env) \<and> pending s = Some 3"
  then have c: "last_mtime s < get_max_mtime (scan_tree env)"
    and p: "pending s = Some (Suc (Suc (Suc 0)))" by (simp_all add: numeral_3_eq_3)
  show "watch_cycle env s =
         (Inl KeyboardInterrupt,
          s\<lparr>log := log s @ [Sleep 1, Walk SOURCE_DIR,
                            Print (CHR 0x0A # ''Change detected. Rebuilding...'')],
            pending := None, last_mtime := get_max_mtime (scan_tree env)\<rparr>)"
    unfolding watch_cycle_change_late[OF c p]
    by (simp add: seq_def and_then_def sleep_def tick_def)
next
  assume a: "last_mtime s < get_max_mtime (scan_tree env) \<and> not_before 3 s
        \<and> scan_tree env' = scan_tree env \<and> pending (snd (watch_cycle env s)) = None"
  then have "last_mtime (snd (watch_cycle env s)) = get_max_mtime (scan_tree env')"
    by (simp add: watch_cycle_change_baseline)
  then have "\<not> last_mtime (snd (watch_cycle env s)) < get_max_mtime (scan_tree env')" by simp
  with a show "watch_cycle env' (snd (watch_cycle env s)) =
         (Inr (), (snd (watch_cycle env s))
                    \<lparr>log := log (snd (watch_cycle env s)) @ [Sleep 1, Walk SOURCE_DIR]\<rparr>)"
    by (simp add: watch_cycle_quiet)
qed


text \<open>Baseline 5, scan 7, a failing build; then a second scan of the same tree.\<close>

theorem baseline_updated_before_rebuild_witness:
  "last_mtime (behind None) < get_max_mtime (scan_tree env_fail) \<and> not_before 3 (behind None)
   \<and> last_mtime (snd (watch_cycle env_fail (behind None))) = 7
   \<and> pending (behind (Some 3)) = Some 3
   \<and> watch_cycle env_fail (behind (Some 3)) =
        (Inl KeyboardInterrupt,
         \<lparr>current_process = Some 7, last_mtime = 7,
          log = [Sleep 1, Walk SOURCE_DIR, Print (CHR 0x0A # ''Change detected. Rebuilding...'')],
          pending = None\<rparr>)
   \<and> scan_tree env_ok = scan_tree env_fail
   \<and> pending (snd (watch_cycle env_fail (behind None))) = None
   \<and> fst (watch_cycle env_ok (snd (watch_cycle env_fail (behind None)))) = Inr ()
   \<and> new_events (snd (watch_cycle env_fail (behind None)))
        (snd (watch_cycle env_ok (snd (watch_cycle env_fail (behind None)))))
      = [Sleep 1, Walk SOURCE_DIR]"
proof -
  let ?s = "behind None"
  let ?i = "behind (Some 3)"
  have sc: "get_max_mtime (scan_tree env_fail) = 7" by (simp add: env_fail_def scan_tree1)
  have c: "last_mtime ?s < get_max_mtime (scan_tree env_fail)" by (simp add: sc behind_def)
  have ci: "last_mtime ?i < get_max_mtime (scan_tree env_fail)" by (simp add: sc behind_def)
  have nb: "not_before 3 ?s" by (simp add: not_before_def behind_def)
  have pi: "pending ?i = Some 3" by (simp add: behind_def)
  have eq: "scan_tree env_ok = scan_tree env_fail" by (simp add: env_ok_def env_fail_def)
  have p: "pending ?s = None" by (simp add: behind_def)
  have f: "returncode (build_result env_fail) \<noteq> 0" by (simp add: env_fail_def)
  have p1: "pending (snd (watch_cycle env_fail ?s)) = None"
    by (simp add: watch_cycle_failed[OF p f c] p)
  note t1 = baseline_updated_before_rebuild[where s = ?s and env = env_fail and env' = env_ok]
  note t2 = baseline_updated_before_rebuild[where s = ?i and env = env_fail]
  from t1[THEN conjunct1] c nb
  have a1: "last_mtime (snd (watch_cycle env_fail ?s)) = 7" unfolding sc by blast
  from t2[THEN conjunct2, THEN conjunct1] ci pi
  have "watch_cycle env_fail ?i =
         (Inl KeyboardInterrupt,
          ?i\<lparr>log := log ?i @ [Sleep 1, Walk SOURCE_DIR,
                            Print (CHR 0x0A # ''Change detected. Rebuilding...'')],
            pending := None, last_mtime := get_max_mtime (scan_tree env_fail)\<rparr>)" by blast
  then have a2: "watch_cycle env_fail ?i =
        (Inl KeyboardInterrupt,
         \<lparr>current_process = Some 7, last_mtime = 7,
          log = [Sleep 1, Walk SOURCE_DIR, Print (CHR 0x0A # ''Change detected. Rebuilding...'')],
          pending = None\<rparr>)"
    unfolding sc by (simp add: behind_def)
  from t1[THEN conjunct2, THEN conjunct2] c nb eq p1
  have a3: "watch_cycle env_ok (snd (watch_cycle env_fail ?s)) =
         (Inr (), (snd (watch_cycle env_fail ?s))
                    \<lparr>log := log (snd (watch_cycle env_fail ?s)) @ [Sleep 1, Walk SOURCE_DIR]\<rparr>)"
    by blast
  have a4: "fst (watch_cycle env_ok (snd (watch_cycle env_fail ?s))) = Inr ()"
    unfolding a3 by simp
  have a5: "new_events (snd (watch_cycle env_fail ?s))
        (snd (watch_cycle env_ok (snd (watch_cycle env_fail ?s)))) = [Sleep 1, Walk SOURCE_DIR]"
    unfolding a3 by (simp add: new_events_def)
  show ?thesis by (intro conjI) (fact c nb a1 pi a2 eq p1 a4 a5)+
qed

section \<open>C9: the baseline never decreases\<close>

text \<open>
  Claim C9. Over any number of cycles of the loop, and wherever an interrupt may fall, the
  baseline does not decrease. One cycle either leaves it as it was or replaces it by a
  scan that is strictly greater. A scan at or below the baseline leaves the baseline as
  it was and runs no build. From the initial scan on, the baseline of \<open>main\<close> is at
  least that scan.
\<close>

theorem baseline_never_decreases:
  "last_mtime s \<le> last_mtime (snd (loop cs s))
   \<and> (last_mtime (snd (watch_cycle env s)) = last_mtime s
       \<or> (last_mtime s < get_max_mtime (scan_tree env)
           \<and> last_mtime (snd (watch_cycle env s)) = get_max_mtime (scan_tree env)))
   \<and> (get_max_mtime (scan_tree env) \<le> last_mtime s \<longrightarrow>
        last_mtime (snd (watch_cycle env s)) = last_mtime s
        \<and> Run xcodebuild_argv \<notin> set (new_events s (snd (watch_cycle env s))))
   \<and> (not_before 2 s \<longrightarrow> get_max_mtime (scan_tree init) \<le> last_mtime (snd (main init cs s)))"
proof (intro conjI impI)
  from loop_baseline_grows[of cs] show "last_mtime s \<le> last_mtime (snd (loop cs s))"
    by (simp add: keeps_def baseline_grows_def)
  show "last_mtime (snd (watch_cycle env s)) = last_mtime s
       \<or> (last_mtime s < get_max_mtime (scan_tree env)
           \<and> last_mtime (snd (watch_cycle env s)) = get_max_mtime (scan_tree env))"
    by (rule watch_cycle_step)
next
  assume "get_max_mtime (scan_tree env) \<le> last_mtime s"
  then have q: "\<not> last_mtime s < get_max_mtime (scan_tree env)" by simp
  from watch_cycle_quiet_any[OF q]
  show "last_mtime (snd (watch_cycle env s)) = last_mtime s"
    and "Run xcodebuild_argv \<notin> set (new_events s (snd (watch_cycle env s)))" by blast+
next
  assume "not_before 2 s"
  then show "get_max_mtime (scan_tree init) \<le> last_mtime (snd (main init cs s))"
    by (rule main_baseline)
qed

lemma scan_tree2: "get_max_mtime tree2 = 0"
  by (simp add: tree2_def scan_eval)

text \<open>
  The watched files are deleted (\<open>tree2\<close> scans to 0) while the baseline is 7: the
  baseline stays at 7 and nothing is built.
\<close>

theorem baseline_never_decreases_witness:
  "get_max_mtime (scan_tree (env_ok\<lparr>scan_tree := tree2\<rparr>)) \<le> last_mtime (tracking 7)
   \<and> get_max_mtime (scan_tree (env_ok\<lparr>scan_tree := tree2\<rparr>)) = 0
   \<and> last_mtime (snd (watch_cycle (env_ok\<lparr>scan_tree := tree2\<rparr>) (tracking 7))) = 7
   \<and> Run xcodebuild_argv \<notin> set (new_events (tracking 7)
        (snd (watch_cycle (env_ok\<lparr>scan_tree := tree2\<rparr>) (tracking 7))))
   \<and> not_before 2 (start None)
   \<and> 7 \<le> last_mtime (snd (main env_ok [env_ok\<lparr>scan_tree := tree2\<rparr>] (start None)))"
proof -
  let ?del = "env_ok\<lparr>scan_tree := tree2\<rparr>"
  have z: "get_max_mtime (scan_tree ?del) = 0" by (simp add: scan_tree2)
  have l: "last_mtime (tracking 7) = 7" by (simp add: tracking_def)
  have le: "get_max_mtime (scan_tree ?del) \<le> last_mtime (tracking 7)"
    by (simp add: scan_tree2 l)
  have nb: "not_before 2 (start None)" by (simp add: not_before_def start_def)
  have i: "get_max_mtime (scan_tree env_ok) = 7" by (simp add: env_ok_def scan_tree1)
  note t1 = baseline_never_decreases[where s = "tracking 7" and env = ?del]
  note t2 = baseline_never_decreases[where s = "start None" and init = env_ok and cs = "[?del]"]
  from t1[THEN conjunct2, THEN conjunct2, THEN conjunct1] le
  have a1: "last_mtime (snd (watch_cycle ?del (tracking 7))) = 7"
    and a2: "Run xcodebuild_argv \<notin> set (new_events (tracking 7)
        (snd (watch_cycle ?del (tracking 7))))" unfolding l by blast+
  from t2[THEN conjunct2, THEN conjunct2, THEN conjunct2] nb
  have a3: "7 \<le> last_mtime (snd (main env_ok [?del] (start None)))" unfolding i by blast
  show ?thesis by (intro conjI) (fact le z a1 a2 nb a3)+
qed

section \<open>Interrupts: helper lemmas\<close>

lemma after_startup:
  "seq a (seq b (seq c (try_except (loop []) h))) s = (Inr (), s1) \<Longrightarrow>
   seq a (seq b (seq c d)) s = d s1"
  by (auto simp: seq_def and_then_def try_except_def ret_def split: prod.splits sum.splits)

lemma during_startup:
  "seq a (seq b (seq c (try_except (loop []) h))) s = (Inl e, s1) \<Longrightarrow>
   seq a (seq b (seq c d)) s = (Inl e, s1)"
  by (auto simp: seq_def and_then_def try_except_def ret_def split: prod.splits sum.splits)

lemma main_after_startup:
  "main init [] s = (Inr (), s1) \<Longrightarrow>
   main init cs s =
     try_except (loop cs) (\<lambda>e. if e = KeyboardInterrupt then Some on_interrupt else None) s1"
  unfolding main_def by (rule after_startup)

lemma main_during_startup:
  "main init [] s = (Inl e, s1) \<Longrightarrow> main init cs s = (Inl e, s1)"
  unfolding main_def by (rule during_startup)

lemma startup_interrupt_only: "interrupt_only (main init [])"
proof -
  have "interrupt_only (try_except (loop []) h)" for h
    by (simp add: interrupt_only_def clean_interrupt_def try_except_def ret_def)
  then show ?thesis
    unfolding main_def
    by (intro interrupt_only_intros build_then_run_interrupt_only)
qed

lemma on_interrupt_exits:
  "pending s = None \<Longrightarrow>
   on_interrupt s =
     (Inl (SystemExit 0),
      s\<lparr>log := log s @ Print (CHR 0x0A # ''Exiting...'') #
               (case current_process s of Some p \<Rightarrow> [Terminate p] | None \<Rightarrow> [])\<rparr>)"
  by (simp add: on_interrupt_def prog_defs tick_None split: option.split)

text \<open>
  What the handler of lines 99--103 does with an interrupt that leaves the loop, and what
  becomes of an exception before the loop is entered.
\<close>

lemma interrupt_leaving_loop:
  assumes "main init [] s = (Inr (), s1)" and "loop cs s1 = (Inl KeyboardInterrupt, s2)"
  shows "main init cs s =
           (Inl (SystemExit 0),
            s2\<lparr>log := log s2 @ Print (CHR 0x0A # ''Exiting...'') #
                      (case current_process s2 of Some p \<Rightarrow> [Terminate p] | None \<Rightarrow> [])\<rparr>)"
proof -
  from loop_interrupt_only[of cs] have "clean_interrupt (loop cs s1)"
    by (simp add: interrupt_only_def)
  with assms(2) have p: "pending s2 = None" by (simp add: clean_interrupt_def)
  show ?thesis
    unfolding main_after_startup[OF assms(1)]
    by (simp add: try_except_def assms(2) on_interrupt_exits[OF p])
qed

lemma exception_before_loop:
  assumes "main init [] s = (Inl e, s1)"
  shows "(e = KeyboardInterrupt \<or> e = OSError) \<and> main init cs s = (Inl e, s1)"
proof -
  from startup_interrupt_only[of init] have "clean_interrupt (main init [] s)"
    by (simp add: interrupt_only_def)
  with assms have "e = KeyboardInterrupt \<or> e = OSError" by (auto simp: clean_interrupt_def)
  with main_during_startup[OF assms, of cs] show ?thesis by simp
qed

lemmas run_eval = main_def build_then_run_def build_def run_app_def popen_def watch_cycle_def
  on_interrupt_def prog_defs tick_def

lemma scan_tree1_touched: "get_max_mtime tree1_touched = 10"
  by (simp add: tree1_touched_def scan_eval)

lemma enters_try_tree1: "enters_try tree1"
  by (simp add: enters_try_def tree1_def dir_names_def file_entries_def watched_def
        endswith_def)

section \<open>C8: the operator's interrupt\<close>

text \<open>
  Claim C8 says that every interrupt during normal operation ends in a request to
  terminate the tracked process and exit code 0. The script does so for an interrupt that
  leaves the loop, and not otherwise. The script is run three times from its start, with
  process 8 launched by the initial cycle. An interrupt on the initial build (the fourth
  operation, line 84) is outside the \<open>try\<close> of line 87: it leaves \<open>main\<close> as
  \<open>KeyboardInterrupt\<close> and there is no exit code 0. An interrupt on the build of the
  first cycle of the loop (line 97, the same statement) is handled as the claim says:
  process 8 is asked to terminate and the exit code is 0. An interrupt in the scan of the
  first cycle that falls inside the \<open>try\<close> of lines 71--76 is caught by the bare
  \<open>except\<close> of line 75: the script is still in its loop, nothing was asked to terminate
  and nothing exits.
\<close>

theorem interrupt_not_always_handled:
  "main env_ok [env_touched] (start (Some 3)) =
     (Inl KeyboardInterrupt,
      \<lparr>current_process = None, last_mtime = 7,
       log = [Print (''Watching for changes in '' @ SOURCE_DIR @ ''...''), Walk SOURCE_DIR,
              Print ''Building (verbose)...''],
       pending = None\<rparr>)
   \<and> main env_ok [env_touched] (start (Some 16)) =
     (Inl (SystemExit 0),
      \<lparr>current_process = Some 8, last_mtime = 10,
       log = [Print (''Watching for changes in '' @ SOURCE_DIR @ ''...''), Walk SOURCE_DIR,
              Print ''Building (verbose)...'', Run xcodebuild_argv, Print ''Build succeeded.'',
              Run killall_argv, Sleep (1/2), Print ''Running app (logs will appear below)...'',
              Print (replicate 40 (CHR ''-'')), Exists APP_PATH, Popen [APP_PATH] 8,
              Sleep 1, Walk SOURCE_DIR, Print (CHR 0x0A # ''Change detected. Rebuilding...''),
              Sleep (1/2), Print ''Building (verbose)...'',
              Print (CHR 0x0A # ''Exiting...''), Terminate 8],
       pending = None\<rparr>)
   \<and> main env_ok [env_in_try] (start (Some 12)) =
     (Inr (),
      \<lparr>current_process = Some 8, last_mtime = 7,
       log = [Print (''Watching for changes in '' @ SOURCE_DIR @ ''...''), Walk SOURCE_DIR,
              Print ''Building (verbose)...'', Run xcodebuild_argv, Print ''Build succeeded.'',
              Run killall_argv, Sleep (1/2), Print ''Running app (logs will appear below)...'',
              Print (replicate 40 (CHR ''-'')), Exists APP_PATH, Popen [APP_PATH] 8,
              Sleep 1, Walk SOURCE_DIR],
       pending = None\<rparr>)"
proof (intro conjI)
  show "main env_ok [env_touched] (start (Some 3)) =
     (Inl KeyboardInterrupt,
      \<lparr>current_process = None, last_mtime = 7,
       log = [Print (''Watching for changes in '' @ SOURCE_DIR @ ''...''), Walk SOURCE_DIR,
              Print ''Building (verbose)...''],
       pending = None\<rparr>)"
    by (simp add: run_eval start_def env_ok_def scan_tree1)
  show "main env_ok [env_touched] (start (Some 16)) =
     (Inl (SystemExit 0),
      \<lparr>current_process = Some 8, last_mtime = 10,
       log = [Print (''Watching for changes in '' @ SOURCE_DIR @ ''...''), Walk SOURCE_DIR,
              Print ''Building (verbose)...'', Run xcodebuild_argv, Print ''Build succeeded.'',
              Run killall_argv, Sleep (1/2), Print ''Running app (logs will appear below)...'',
              Print (replicate 40 (CHR ''-'')), Exists APP_PATH, Popen [APP_PATH] 8,
              Sleep 1, Walk SOURCE_DIR, Print (CHR 0x0A # ''Change detected. Rebuilding...''),
              Sleep (1/2), Print ''Building (verbose)...'',
              Print (CHR 0x0A # ''Exiting...''), Terminate 8],
       pending = None\<rparr>)"
    by (simp add: run_eval start_def env_ok_def env_touched_def scan_tree1 scan_tree1_touched)
  show "main env_ok [env_in_try] (start (Some 12)) =
     (Inr (),
      \<lparr>current_process = Some 8, last_mtime = 7,
       log = [Print (''Watching for changes in '' @ SOURCE_DIR @ ''...''), Walk SOURCE_DIR,
              Print ''Building (verbose)...'', Run xcodebuild_argv, Print ''Build succeeded.'',
              Run killall_argv, Sleep (1/2), Print ''Running app (logs will appear below)...'',
              Print (replicate 40 (CHR ''-'')), Exists APP_PATH, Popen [APP_PATH] 8,
              Sleep 1, Walk SOURCE_DIR],
       pending = None\<rparr>)"
    by (simp add: run_eval start_def env_ok_def env_in_try_def scan_tree1 enters_try_tree1)
qed

end
